theory Spec2Isabelle
  imports Main
begin

text \<open>
  A model of gcd.py, the Grand Comics Database talker: its string handling, the format
  classifier, the mapping of an issue and its series to the output record, the SQL queries
  it sends (as functions on the tables they read), and its operations with the caches, the
  flags and the connections they make. The properties proved about them follow the
  definitions.
\<close>

section \<open>Python string operations used by gcd.py\<close>

text \<open>
  Strings are modelled as lists of ASCII characters. The case operations below act on the
  letters A-Z and a-z and leave every other character alone, which is what Python's
  \<^verbatim>\<open>casefold\<close>, \<^verbatim>\<open>lower\<close>, \<^verbatim>\<open>upper\<close> and
  \<^verbatim>\<open>title\<close> do on ASCII text; text outside ASCII is outside the model.
\<close>

definition upper_letters :: string where
  "upper_letters = ''ABCDEFGHIJKLMNOPQRSTUVWXYZ''"

definition lower_letters :: string where
  "lower_letters = ''abcdefghijklmnopqrstuvwxyz''"

definition digit_chars :: string where
  "digit_chars = ''0123456789''"

definition lower_char :: "char \<Rightarrow> char" where
  "lower_char c = (case map_of (zip upper_letters lower_letters) c of Some d \<Rightarrow> d | None \<Rightarrow> c)"

definition upper_char :: "char \<Rightarrow> char" where
  "upper_char c = (case map_of (zip lower_letters upper_letters) c of Some d \<Rightarrow> d | None \<Rightarrow> c)"

definition is_alpha :: "char \<Rightarrow> bool" where
  "is_alpha c = (c \<in> set upper_letters \<or> c \<in> set lower_letters)"

text \<open>\<^verbatim>\<open>\w\<close> of the \<^verbatim>\<open>re\<close> module on ASCII: letters, digits and the underscore.\<close>

definition is_word_char :: "char \<Rightarrow> bool" where
  "is_word_char c = (is_alpha c \<or> c \<in> set digit_chars \<or> c = CHR ''_'')"

text \<open>
  Whitespace of \<^verbatim>\<open>str.strip\<close> and of \<^verbatim>\<open>\s\<close> on ASCII: space, tab, line
  feed, vertical tab, form feed, carriage return and the four separators 0x1C-0x1F.
\<close>

definition is_space :: "char \<Rightarrow> bool" where
  "is_space c = (c \<in> set [CHR '' '', CHR 0x09, CHR 0x0A, CHR 0x0B, CHR 0x0C, CHR 0x0D,
                            CHR 0x1C, CHR 0x1D, CHR 0x1E, CHR 0x1F])"

definition casefold :: "string \<Rightarrow> string" where
  "casefold s = map lower_char s"

definition startswith :: "string \<Rightarrow> string \<Rightarrow> bool" where
  "startswith s p = (take (length p) s = p)"

definition endswith :: "string \<Rightarrow> string \<Rightarrow> bool" where
  "endswith s t = (length t \<le> length s \<and> drop (length s - length t) s = t)"

text \<open>\<^verbatim>\<open>t in s\<close> for strings: \<open>t\<close> occurs in \<open>s\<close> as a contiguous block.\<close>

fun contains :: "string \<Rightarrow> string \<Rightarrow> bool" where
  "contains [] t = (t = [])"
| "contains (c # cs) t = (startswith (c # cs) t \<or> contains cs t)"

definition strip :: "string \<Rightarrow> string" where
  "strip s = rev (dropWhile is_space (rev (dropWhile is_space s)))"

fun capitalize :: "string \<Rightarrow> string" where
  "capitalize [] = []"
| "capitalize (c # cs) = upper_char c # map lower_char cs"

text \<open>
  \<^verbatim>\<open>str.title\<close>: a letter that follows a letter is lowered, any other letter is raised.
  The flag says whether the previous character was a letter.
\<close>

fun title_from :: "bool \<Rightarrow> string \<Rightarrow> string" where
  "title_from prev [] = []"
| "title_from prev (c # cs) =
     (if prev then lower_char c else upper_char c) # title_from (is_alpha c) cs"

definition title :: "string \<Rightarrow> string" where
  "title s = title_from False s"

text \<open>\<^verbatim>\<open>sep.join(xs)\<close>.\<close>

fun join :: "string \<Rightarrow> string list \<Rightarrow> string" where
  "join sep [] = []"
| "join sep [x] = x"
| "join sep (x # y # ys) = x @ sep @ join sep (y # ys)"

text \<open>
  \<^verbatim>\<open>s.split(sep)\<close> for a non-empty separator: the string is cut at the leftmost
  occurrences of \<open>sep\<close>, scanning from the left; the result is never the empty list.
  (Python raises ValueError for an empty separator; gcd.py only splits on the constants
  newline, double newline, semicolon, semicolon-space and question mark.)
\<close>

function split :: "string \<Rightarrow> string \<Rightarrow> string list" where
  "split sep [] = [[]]"
| "split sep (c # cs) =
     (if sep \<noteq> [] \<and> startswith (c # cs) sep
      then [] # split sep (drop (length sep) (c # cs))
      else (case split sep cs of [] \<Rightarrow> [[c]] | w # ws \<Rightarrow> (c # w) # ws))"
  by pat_completeness auto
termination
  by (relation "measure (\<lambda>(sep, s). length s)") (auto simp: startswith_def)

declare split.simps [simp del]

text \<open>\<^verbatim>\<open>str(n)\<close> for an integer: its decimal numeral.\<close>

function str_nat :: "nat \<Rightarrow> string" where
  "str_nat n = (if n < 10 then [digit_chars ! n] else str_nat (n div 10) @ [digit_chars ! (n mod 10)])"
  by pat_completeness auto
termination
  by (relation "measure (\<lambda>n. n)") auto

declare str_nat.simps [simp del]

definition str_int :: "int \<Rightarrow> string" where
  "str_int i = (if i < 0 then CHR ''-'' # str_nat (nat (- i)) else str_nat (nat i))"

section \<open>The format classifier\<close>

text \<open>
  \<^verbatim>\<open>_match_format\<close> searches its argument with the regular expression
  \<^verbatim>\<open>\b(?:w1|w2|...)\b\<close> under \<^verbatim>\<open>re.IGNORECASE\<close>. The alternatives use literal
  text, an optional character of a class (\<^verbatim>\<open>[-\s]?\<close>, \<^verbatim>\<open>[\s]?\<close>) and
  \<^verbatim>\<open>.*\<close>. The matcher below is the backtracking search of \<^verbatim>\<open>re\<close> for this
  fragment: every function returns the remainders of the input that a match can leave, in
  the order in which the engine tries them (greedy first), and the search takes the first
  one at which the closing \<^verbatim>\<open>\b\<close> holds.
\<close>

datatype cclass = Dash_or_space | Space_only | Any_but_newline

datatype item = Lit string | Opt cclass | Star cclass

fun in_class :: "cclass \<Rightarrow> char \<Rightarrow> bool" where
  "in_class Dash_or_space c = (c = CHR ''-'' \<or> is_space c)"
| "in_class Space_only c = is_space c"
| "in_class Any_but_newline c = (c \<noteq> CHR 0x0A)"

fun star_rests :: "cclass \<Rightarrow> string \<Rightarrow> string list" where
  "star_rests k [] = [[]]"
| "star_rests k (c # cs) = (if in_class k c then star_rests k cs @ [c # cs] else [c # cs])"

fun match_item :: "item \<Rightarrow> string \<Rightarrow> string list" where
  "match_item (Lit l) s =
     (if length l \<le> length s \<and> casefold (take (length l) s) = casefold l
      then [drop (length l) s] else [])"
| "match_item (Opt k) [] = [[]]"
| "match_item (Opt k) (c # cs) = (if in_class k c then [cs, c # cs] else [c # cs])"
| "match_item (Star k) s = star_rests k s"

fun match_items :: "item list \<Rightarrow> string \<Rightarrow> string list" where
  "match_items [] s = [s]"
| "match_items (i # is) s = concat (map (match_items is) (match_item i s))"

text \<open>
  \<^verbatim>\<open>\b\<close> between the character before a position (if any) and the one after it (if
  any): exactly one of the two is a word character.
\<close>

definition word_boundary :: "char option \<Rightarrow> char option \<Rightarrow> bool" where
  "word_boundary prev nxt =
     ((case prev of None \<Rightarrow> False | Some c \<Rightarrow> is_word_char c) \<noteq>
      (case nxt of None \<Rightarrow> False | Some c \<Rightarrow> is_word_char c))"

definition first_char :: "string \<Rightarrow> char option" where
  "first_char s = (case s of [] \<Rightarrow> None | c # _ \<Rightarrow> Some c)"

definition last_char :: "char option \<Rightarrow> string \<Rightarrow> char option" where
  "last_char prev m = (if m = [] then prev else Some (last m))"

text \<open>
  The match of the whole pattern at one start position: \<open>prev\<close> is the character in
  front of the position, \<open>s\<close> the input from the position on. The alternatives are tried
  in order, and within one alternative its remainders in order.
\<close>

definition match_at :: "item list list \<Rightarrow> char option \<Rightarrow> string \<Rightarrow> string option" where
  "match_at alts prev s =
     (if word_boundary prev (first_char s)
      then (case filter (\<lambda>r. word_boundary (last_char prev (take (length s - length r) s)) (first_char r))
                        (concat (map (\<lambda>a. match_items a s) alts)) of
              [] \<Rightarrow> None
            | r # _ \<Rightarrow> Some (take (length s - length r) s))
      else None)"

text \<open>\<^verbatim>\<open>re.search\<close>: the match at the leftmost position that has one.\<close>

fun re_search_from :: "item list list \<Rightarrow> char option \<Rightarrow> string \<Rightarrow> string option" where
  "re_search_from alts prev [] = match_at alts prev []"
| "re_search_from alts prev (c # cs) =
     (case match_at alts prev (c # cs) of
        Some m \<Rightarrow> Some m
      | None \<Rightarrow> re_search_from alts (Some c) cs)"

definition re_search :: "item list list \<Rightarrow> string \<Rightarrow> string option" where
  "re_search alts s = re_search_from alts None s"

definition word_list :: "item list list" where
  "word_list =
     [[Lit ''annual''],
      [Lit ''album''],
      [Lit ''anthology''],
      [Lit ''collection''],
      [Lit ''collect'', Star Any_but_newline],
      [Lit ''graphic novel''],
      [Lit ''hardcover''],
      [Lit ''limited series''],
      [Lit ''one'', Opt Dash_or_space, Lit ''shot''],
      [Lit ''preview''],
      [Lit ''special''],
      [Lit ''trade paper'', Opt Space_only, Lit ''back''],
      [Lit ''web'', Opt Space_only, Lit ''comic''],
      [Lit ''mini'', Opt Dash_or_space, Lit ''series'']]"

text \<open>
  What the pattern means, apart from the search: the texts that an item, an alternative
  and the whole pattern accept. \<open>occurs_at alts pre m post\<close> says that in the text
  \<open>pre @ m @ post\<close> the part \<open>m\<close> is accepted by one of the alternatives and has a
  word boundary on both sides.
\<close>

fun item_matches :: "item \<Rightarrow> string \<Rightarrow> bool" where
  "item_matches (Lit l) m = (casefold m = casefold l)"
| "item_matches (Opt k) m = (case m of [] \<Rightarrow> True | c # cs \<Rightarrow> cs = [] \<and> in_class k c)"
| "item_matches (Star k) m = list_all (in_class k) m"

fun items_match :: "item list \<Rightarrow> string \<Rightarrow> bool" where
  "items_match [] m = (m = [])"
| "items_match (i # is) m =
     list_ex (\<lambda>n. item_matches i (take n m) \<and> items_match is (drop n m)) [0..<Suc (length m)]"

definition occurs_at :: "item list list \<Rightarrow> string \<Rightarrow> string \<Rightarrow> string \<Rightarrow> bool" where
  "occurs_at alts pre m post =
     (list_ex (\<lambda>a. items_match a m) alts
      \<and> word_boundary (last_char None pre) (first_char (m @ post))
      \<and> word_boundary (last_char (last_char None pre) m) (first_char post))"

definition match_format :: "string \<Rightarrow> string option" where
  "match_format string =
     (case re_search word_list string of
        Some m \<Rightarrow> if contains (casefold m) ''collect'' then Some ''Collection'' else Some (title m)
      | None \<Rightarrow> None)"

section \<open>Settings, raw records and the output record\<close>

text \<open>The settings that \<^verbatim>\<open>parse_settings\<close> stores on the talker.\<close>

record config =
  db_file :: string
  use_series_start_as_volume :: bool
  prefer_story_titles :: bool
  combine_notes :: bool
  use_ongoing_issue_count :: bool
  currency :: string
  download_gui_covers :: bool
  download_tag_covers :: bool
  nn_is_issue_one :: bool
  replace_nn_with_one :: bool

record gcd_credit =
  cr_name :: string
  cr_gcd_role :: string

text \<open>
  \<^verbatim>\<open>GCDSeries\<close> and \<^verbatim>\<open>GCDIssue\<close>. A field is an option where the TypedDict says
  \<^verbatim>\<open>| None\<close> or where the key is only set for a complete issue (then \<open>None\<close> is what
  \<^verbatim>\<open>issue.get\<close> returns for a missing key or an SQL NULL); a list that is only set for
  a complete issue is empty when the key is missing, which \<^verbatim>\<open>issue.get\<close> cannot tell
  apart. Fields typed \<^verbatim>\<open>str\<close> hold strings.
\<close>

record gcd_series =
  gs_count_of_issues :: "int option"
  gs_notes :: string
  gs_id :: int
  gs_name :: string
  gs_sort_name :: "string option"
  gs_publisher_name :: "string option"
  gs_format :: string
  gs_year_began :: "int option"
  gs_year_ended :: "int option"
  gs_image :: string
  gs_cover_downloaded :: bool

record gcd_issue =
  gi_id :: int
  gi_key_date :: string
  gi_number :: string
  gi_issue_title :: string
  gi_series_id :: int
  gi_issue_notes :: "string option"
  gi_volume :: "int option"
  gi_imprint :: "string option"
  gi_price :: "string option"
  gi_isbn :: "string option"
  gi_maturity_rating :: "string option"
  gi_country :: "string option"
  gi_country_iso :: "string option"
  gi_story_ids :: "string list"
  gi_characters :: "string list"
  gi_language :: "string option"
  gi_language_iso :: "string option"
  gi_story_titles :: "string list"
  gi_genres :: "string list"
  gi_synopses :: "string list"
  gi_image :: string
  gi_alt_image_urls :: "string list"
  gi_credits :: "gcd_credit list"
  gi_covers_downloaded :: bool

text \<open>
  The fields of \<^verbatim>\<open>GenericMetadata\<close> that gcd.py writes. \<open>md_credits\<close> is the
  sequence of \<^verbatim>\<open>add_credit\<close> calls. The price is whatever \<^verbatim>\<open>utils.xlate_float\<close>
  returns, of a type \<open>'f\<close> left open.
\<close>

record 'f metadata =
  md_issue_id :: "string option"
  md_series_id :: "string option"
  md_publisher :: "string option"
  md_series :: "string option"
  md_issue :: "string option"
  md_cover_image :: "string option"
  md_alternate_images :: "string list"
  md_characters :: "string set"
  md_credits :: "gcd_credit list"
  md_title :: "string option"
  md_genres :: "string set"
  md_price :: "'f option"
  md_identifier :: "string option"
  md_issue_count :: "int option"
  md_description :: "string option"
  md_web_links :: "string list"
  md_volume :: "int option"
  md_day :: "int option"
  md_month :: "int option"
  md_year :: "int option"
  md_language :: "string option"
  md_country :: "string option"
  md_format :: "string option"
  md_maturity_rating :: "string option"
  md_imprint :: "string option"

text \<open>\<^verbatim>\<open>GenericMetadata()\<close>: nothing set.\<close>

definition empty_md :: "'f metadata" where
  "empty_md =
     \<lparr>md_issue_id = None, md_series_id = None, md_publisher = None, md_series = None,
      md_issue = None, md_cover_image = None, md_alternate_images = [], md_characters = {},
      md_credits = [], md_title = None, md_genres = {}, md_price = None, md_identifier = None,
      md_issue_count = None, md_description = None, md_web_links = [], md_volume = None,
      md_day = None, md_month = None, md_year = None, md_language = None, md_country = None,
      md_format = None, md_maturity_rating = None, md_imprint = None\<rparr>"

text \<open>
  Helpers of the comicapi library that gcd.py calls and whose code is not part of this
  module: they are parameters. \<open>issue_string n\<close> stands for
  \<^verbatim>\<open>utils.xlate(IssueString(n).as_string())\<close>.
\<close>

record 'f ext =
  xlate_float :: "string \<Rightarrow> 'f option"
  xlate_int :: "int option \<Rightarrow> int option"
  issue_string :: "string \<Rightarrow> string option"
  parse_date_str :: "string \<Rightarrow> int option \<times> int option \<times> int option"

text \<open>
  \<^verbatim>\<open>utils.xlate\<close> on an optional string: None and blank strings give None, any other
  value its text without the surrounding whitespace (\<^verbatim>\<open>str(data).strip()\<close>).
\<close>

definition xlate :: "string option \<Rightarrow> string option" where
  "xlate d = (case d of None \<Rightarrow> None | Some s \<Rightarrow> if strip s = [] then None else Some (strip s))"

section \<open>Mapping an issue and its series to the output record\<close>

text \<open>
  The price loop of \<^verbatim>\<open>_map_comic_issue_to_metadata\<close>: every component of the raw
  field that ends with the configured currency assigns \<^verbatim>\<open>md.price\<close>; the loop has
  no \<^verbatim>\<open>break\<close>.
\<close>

definition price_matches :: "string \<Rightarrow> string \<Rightarrow> bool" where
  "price_matches cur price = endswith (casefold price) (casefold cur)"

fun price_loop :: "(string \<Rightarrow> 'f option) \<Rightarrow> string \<Rightarrow> string list \<Rightarrow> 'f option \<Rightarrow> 'f option" where
  "price_loop xf cur [] acc = acc"
| "price_loop xf cur (price # prices) acc =
     price_loop xf cur prices (if price_matches cur price then xf price else acc)"

definition map_price :: "(string \<Rightarrow> 'f option) \<Rightarrow> string \<Rightarrow> string option \<Rightarrow> 'f option" where
  "map_price xf cur raw =
     (case raw of
        None \<Rightarrow> None
      | Some p \<Rightarrow> if p = [] then None else price_loop xf cur (split '';'' p) None)"

definition crlf2 :: string where
  "crlf2 = [CHR 0x0D, CHR 0x0A, CHR 0x0D, CHR 0x0A]"

text \<open>
  The loop over \<^verbatim>\<open>enumerate(issue["story_titles"])\<close>, which runs when both lists have
  the same length: a block is appended when the title and the synopsis at the same index
  are both non-empty.
\<close>

fun title_synopsis_blocks :: "string list \<Rightarrow> string list \<Rightarrow> string" where
  "title_synopsis_blocks (t # ts) (s # ss) =
     (if t \<noteq> [] \<and> s \<noteq> [] then t @ '': '' @ s @ crlf2 else []) @ title_synopsis_blocks ts ss"
| "title_synopsis_blocks _ _ = []"

definition map_description :: "config \<Rightarrow> gcd_issue \<Rightarrow> gcd_series \<Rightarrow> string" where
  "map_description cfg issue series =
     (if combine_notes cfg
      then gs_notes series @ (case gi_issue_notes issue of None \<Rightarrow> [] | Some n \<Rightarrow> n)
      else []) @
     (if length (gi_synopses issue) = length (gi_story_titles issue)
      then title_synopsis_blocks (gi_story_titles issue) (gi_synopses issue)
      else join crlf2 (gi_synopses issue))"

definition map_title :: "config \<Rightarrow> gcd_issue \<Rightarrow> string option" where
  "map_title cfg issue =
     (if (prefer_story_titles cfg \<or> gi_issue_title issue = []) \<and> gi_story_titles issue \<noteq> []
      then Some (join ''; '' (gi_story_titles issue))
      else Some (gi_issue_title issue))"

definition truthy_int :: "int option \<Rightarrow> bool" where
  "truthy_int v = (case v of None \<Rightarrow> False | Some i \<Rightarrow> i \<noteq> 0)"

definition truthy_str :: "string option \<Rightarrow> bool" where
  "truthy_str v = (case v of None \<Rightarrow> False | Some s \<Rightarrow> s \<noteq> [])"

definition website :: string where
  "website = ''https://www.comics.org/''"

definition map_date :: "'f ext \<Rightarrow> gcd_issue \<Rightarrow> gcd_series \<Rightarrow> int option \<times> int option \<times> int option" where
  "map_date ex issue series =
     (if gi_key_date issue \<noteq> [] then parse_date_str ex (gi_key_date issue)
      else if truthy_int (gs_year_began series) then (None, None, xlate_int ex (gs_year_began series))
      else (None, None, None))"

definition map_comic_issue_to_metadata ::
  "'f ext \<Rightarrow> config \<Rightarrow> gcd_issue \<Rightarrow> gcd_series \<Rightarrow> 'f metadata" where
  "map_comic_issue_to_metadata ex cfg issue series =
     \<lparr>md_issue_id = Some (str_int (gi_id issue)),
      md_series_id = Some (str_int (gs_id series)),
      md_publisher = xlate (gs_publisher_name series),
      md_series = xlate (Some (gs_name series)),
      md_issue = (let issue_number = issue_string ex (gi_number issue)
                  in if replace_nn_with_one cfg \<and> issue_number = Some ''[nn]''
                     then Some ''1'' else issue_number),
      md_cover_image = Some (gi_image issue),
      md_alternate_images = gi_alt_image_urls issue,
      md_characters = set (gi_characters issue),
      md_credits = gi_credits issue,
      md_title = map_title cfg issue,
      md_genres = set (gi_genres issue),
      md_price = map_price (xlate_float ex) (currency cfg) (gi_price issue),
      md_identifier = (if truthy_str (gi_isbn issue) then gi_isbn issue else None),
      md_issue_count = (if truthy_int (gs_year_ended series) \<or> use_ongoing_issue_count cfg
                        then xlate_int ex (gs_count_of_issues series) else None),
      md_description = Some (map_description cfg issue series),
      md_web_links = [website @ ''issue/'' @ str_int (gi_id issue)],
      md_volume = (if use_series_start_as_volume cfg then gs_year_began series
                   else xlate_int ex (gi_volume issue)),
      md_day = fst (map_date ex issue series),
      md_month = fst (snd (map_date ex issue series)),
      md_year = snd (snd (map_date ex issue series)),
      md_language = gi_language_iso issue,
      md_country = gi_country issue,
      md_format = match_format (gs_format series),
      md_maturity_rating = gi_maturity_rating issue,
      md_imprint = gi_imprint issue\<rparr>"

section \<open>Sample settings and records\<close>

text \<open>
  Stand-ins for the library helpers, the settings of a fresh talker (the values that
  \<^verbatim>\<open>__init__\<close> assigns, with a database path), and an issue and a series with
  nothing filled in. The concrete evaluations below start from them.
\<close>

definition sample_ext :: "string ext" where
  "sample_ext =
     \<lparr>xlate_float = (\<lambda>s. Some s), xlate_int = (\<lambda>v. v),
      issue_string = (\<lambda>n. xlate (Some n)), parse_date_str = (\<lambda>d. (None, None, None))\<rparr>"

definition default_config :: config where
  "default_config =
     \<lparr>db_file = ''gcd.db'', use_series_start_as_volume = False, prefer_story_titles = False,
      combine_notes = False, use_ongoing_issue_count = False, currency = [],
      download_gui_covers = False, download_tag_covers = False, nn_is_issue_one = True,
      replace_nn_with_one = False\<rparr>"

definition blank_issue :: gcd_issue where
  "blank_issue =
     \<lparr>gi_id = 0, gi_key_date = [], gi_number = [], gi_issue_title = [], gi_series_id = 0,
      gi_issue_notes = None, gi_volume = None, gi_imprint = None, gi_price = None,
      gi_isbn = None, gi_maturity_rating = None, gi_country = None, gi_country_iso = None,
      gi_story_ids = [], gi_characters = [], gi_language = None, gi_language_iso = None,
      gi_story_titles = [], gi_genres = [], gi_synopses = [], gi_image = [],
      gi_alt_image_urls = [], gi_credits = [], gi_covers_downloaded = False\<rparr>"

definition blank_series :: gcd_series where
  "blank_series =
     \<lparr>gs_count_of_issues = None, gs_notes = [], gs_id = 0, gs_name = [], gs_sort_name = None,
      gs_publisher_name = None, gs_format = [], gs_year_began = None, gs_year_ended = None,
      gs_image = [], gs_cover_downloaded = False\<rparr>"

section \<open>The wording of the specification, for comparison\<close>

text \<open>
  The price as the specification words it: the first component of the raw field, split on
  the semicolon, that ends with the preferred currency.
\<close>

definition price_first_match :: "(string \<Rightarrow> 'f option) \<Rightarrow> string \<Rightarrow> string \<Rightarrow> 'f option" where
  "price_first_match xf cur raw =
     (case filter (price_matches cur) (split '';'' raw) of [] \<Rightarrow> None | p # _ \<Rightarrow> xf p)"

text \<open>
  The description as the specification words it: with equal counts, one block per
  title and synopsis pair; otherwise the synopses joined.
\<close>

definition description_as_specified :: "string list \<Rightarrow> string list \<Rightarrow> string" where
  "description_as_specified titles synopses =
     (if length titles = length synopses
      then concat (map (\<lambda>(t, s). t @ '': '' @ s @ crlf2) (zip titles synopses))
      else join crlf2 synopses)"

section \<open>The database, its queries and the world around the talker\<close>

text \<open>
  The tables of the GCD snapshot that the queries read. A column is an option where the
  SQL of gcd.py tests it for NULL or where GCDSeries declares \<^verbatim>\<open>| None\<close>. The country,
  language and imprint of an issue are reached by LEFT JOINs on primary keys (and a scalar
  subquery), which attach at most one value to an issue row; they are kept as columns of
  the issue row. The two credit joins are kept as functions from an id to the rows of the
  join, in query order.
\<close>

record story_row =
  st_id :: int
  st_issue_id :: int
  st_type_id :: int
  st_title :: "string option"
  st_genre :: "string option"
  st_synopsis :: "string option"
  st_characters :: "string option"

record issue_row =
  is_id :: int
  is_number :: string
  is_key_date :: string
  is_title :: string
  is_series_id :: int
  is_price :: "string option"
  is_valid_isbn :: "string option"
  is_notes :: string
  is_volume :: "int option"
  is_rating :: "string option"
  is_country :: "string option"
  is_country_iso :: "string option"
  is_language :: "string option"
  is_language_iso :: "string option"
  is_imprint :: "string option"

record series_row =
  sr_id :: int
  sr_name :: string
  sr_sort_name :: "string option"
  sr_notes :: string
  sr_year_began :: "int option"
  sr_year_ended :: "int option"
  sr_issue_count :: "int option"
  sr_publisher_id :: int
  sr_publishing_format :: string
  sr_first_issue_id :: "int option"

record publisher_row =
  pb_id :: int
  pb_name :: string

record database =
  issues :: "issue_row list"
  stories :: "story_row list"
  series_tbl :: "series_row list"
  publishers :: "publisher_row list"
  issue_credits :: "int \<Rightarrow> gcd_credit list"
  story_credits :: "int \<Rightarrow> gcd_credit list"

type_synonym joined = "issue_row \<times> story_row option"

text \<open>
  What the talker does not own: the file system (\<open>is_file\<close>: the files that exist when
  the talker starts; \<open>can_create\<close>: the missing paths at which SQLite can create a file),
  the database behind the configured path, whether SQLite was compiled with FTS5 and what its MATCH accepts, the
  cover page of an issue on the web site (the \<^verbatim>\<open>src\<close> attributes of its cover images,
  or \<open>None\<close> when the request fails), and \<open>pick\<close>: the row of a group from which
  SQLite takes the columns that are neither aggregated nor grouped (SQLite documents it as
  an arbitrary row of the group).
\<close>

record env =
  is_file :: "string \<Rightarrow> bool"
  db :: database
  fts5_compiled :: bool
  fts_match :: "string \<Rightarrow> string \<Rightarrow> bool"
  cover_imgs :: "int \<Rightarrow> string list option"
  pick :: "joined list \<Rightarrow> joined"
  can_create :: "string \<Rightarrow> bool"

definition pick_ok :: "env \<Rightarrow> bool" where
  "pick_ok e = (\<forall>g. g \<noteq> [] \<longrightarrow> pick e g \<in> set g)"

datatype event = DB_connect | Net_get int

text \<open>
  The exceptions that leave gcd.py: TalkerDataError with code 3 (the three messages of
  \<^verbatim>\<open>check_db_filename_not_empty\<close> and \<^verbatim>\<open>_fetch_issue_by_issue_id\<close>), with code 0
  (any sqlite3.Error), TalkerNetworkError, and the Python errors that no handler of the
  module catches.
\<close>

datatype error =
    Db_path_empty
  | Db_path_invalid
  | Issue_not_found int
  | Db_error
  | Network_error
  | Type_error
  | Key_error
  | Value_error

text \<open>
  What changes while the talker runs: its three flags, the two artefacts it creates in
  the database file, the two caches (keyed by id; the third component of the contract is
  the completeness flag), the trace of connections and web requests made so far, the
  empty files that \<^verbatim>\<open>sqlite3.connect\<close> has created at paths where there was none, and
  \<open>read_pending\<close>: an open connection of the talker has a query with rows not yet
  fetched, which holds a read lock on the database file.
\<close>

record state =
  has_issue_id_type_id_index :: bool
  has_fts5 :: bool
  has_fts5_checked :: bool
  db_index :: bool
  db_fts_table :: bool
  cache_series :: "int \<Rightarrow> (gcd_series \<times> bool) option"
  cache_issues :: "int \<Rightarrow> (gcd_issue \<times> bool) option"
  trace :: "event list"
  created_files :: "string set"
  read_pending :: bool

definition log_event :: "event \<Rightarrow> state \<Rightarrow> state" where
  "log_event ev s = s\<lparr>trace := trace s @ [ev]\<rparr>"

text \<open>\<^verbatim>\<open>pathlib.Path(p).is_file()\<close> at this moment.\<close>

definition path_is_file :: "env \<Rightarrow> state \<Rightarrow> string \<Rightarrow> bool" where
  "path_is_file e s p = (is_file e p \<or> p \<in> created_files s)"

text \<open>
  \<^verbatim>\<open>sqlite3.connect(self.db_file)\<close>: it is recorded in the trace, and where the path has
  no file and one can be created, SQLite creates an empty one.
\<close>

definition connect :: "config \<Rightarrow> env \<Rightarrow> state \<Rightarrow> state" where
  "connect cfg e s =
     (log_event DB_connect s)
       \<lparr>created_files :=
          (if \<not> path_is_file e s (db_file cfg) \<and> can_create e (db_file cfg)
           then insert (db_file cfg) (created_files s) else created_files s)\<rparr>"

subsection \<open>SQL building blocks\<close>

text \<open>
  LIKE of SQLite: \<^verbatim>\<open>%\<close> matches any run of characters, \<^verbatim>\<open>_\<close> one character, and
  letters match without regard to case.
\<close>

fun sql_like :: "string \<Rightarrow> string \<Rightarrow> bool" where
  "sql_like [] s = (s = [])"
| "sql_like (p # ps) [] = (p = CHR ''%'' \<and> sql_like ps [])"
| "sql_like (p # ps) (c # cs) =
     (if p = CHR ''%'' then sql_like ps (c # cs) \<or> sql_like (p # ps) cs
      else (p = CHR ''_'' \<or> lower_char p = lower_char c) \<and> sql_like ps cs)"

text \<open>\<^verbatim>\<open>CASE WHEN x IS NOT NULL AND x != '' THEN x END\<close>.\<close>

definition nonempty :: "string option \<Rightarrow> string option" where
  "nonempty v = (case v of None \<Rightarrow> None | Some s \<Rightarrow> if s \<noteq> [] then Some s else None)"

definition non_null :: "'a option list \<Rightarrow> 'a list" where
  "non_null vs = concat (map (\<lambda>v. case v of None \<Rightarrow> [] | Some x \<Rightarrow> [x]) vs)"

text \<open>\<^verbatim>\<open>GROUP_CONCAT(x, sep)\<close>: the non-NULL values joined, NULL when there is none.\<close>

definition group_concat :: "string \<Rightarrow> string option list \<Rightarrow> string option" where
  "group_concat sep vs = (if non_null vs = [] then None else Some (join sep (non_null vs)))"

text \<open>
  \<^verbatim>\<open>gcd_issue LEFT JOIN gcd_story ON gcd_story.issue_id = gcd_issue.id AND
  gcd_story.type_id = 19\<close> for one issue row: one joined row per story, or one row with
  a NULL story.
\<close>

definition join_stories :: "database \<Rightarrow> issue_row \<Rightarrow> joined list" where
  "join_stories d i =
     (case filter (\<lambda>st. st_issue_id st = is_id i \<and> st_type_id st = 19) (stories d) of
        [] \<Rightarrow> [(i, None)]
      | sts \<Rightarrow> map (\<lambda>st. (i, Some st)) sts)"

definition story_col :: "(story_row \<Rightarrow> string option) \<Rightarrow> joined \<Rightarrow> string option" where
  "story_col f j = (case snd j of None \<Rightarrow> None | Some st \<Rightarrow> f st)"

text \<open>
  The values that the grouped query concatenates for a story column over the rows of a
  group: those that are neither NULL nor empty, in the order of the rows; and the story ids
  of the group as decimal numerals.
\<close>

definition story_values :: "(story_row \<Rightarrow> string option) \<Rightarrow> joined list \<Rightarrow> string list" where
  "story_values f g = non_null (map (\<lambda>j. nonempty (story_col f j)) g)"

definition story_id_values :: "joined list \<Rightarrow> string list" where
  "story_id_values g = non_null (map (\<lambda>j. map_option (\<lambda>st. str_int (st_id st)) (snd j)) g)"

definition newline :: string where
  "newline = [CHR 0x0A]"

subsection \<open>Result rows\<close>

text \<open>
  A row as the cursor returns it. The two listing queries select the first six columns;
  the query by issue id selects \<open>rw_synopses\<close> and the columns of \<open>rw_full\<close> as well
  (\<open>None\<close> there: the row has no such columns).
\<close>

record full_cols =
  fc_issue_notes :: string
  fc_volume :: "int option"
  fc_price :: "string option"
  fc_isbn :: "string option"
  fc_imprint :: "string option"
  fc_maturity_rating :: "string option"
  fc_characters :: "string option"
  fc_country :: "string option"
  fc_country_iso :: "string option"
  fc_story_ids :: "string option"
  fc_language :: "string option"
  fc_language_iso :: "string option"
  fc_genres :: "string option"

record row =
  rw_id :: int
  rw_key_date :: string
  rw_number :: string
  rw_issue_title :: string
  rw_series_id :: int
  rw_story_titles :: "string option"
  rw_synopses :: "string option"
  rw_full :: "full_cols option"

text \<open>The row of one group of a listing query (\<^verbatim>\<open>GROUP BY gcd_issue.number\<close>).\<close>

definition listing_row :: "env \<Rightarrow> joined list \<Rightarrow> row" where
  "listing_row e g =
     (let i = fst (pick e g)
      in \<lparr>rw_id = is_id i, rw_key_date = is_key_date i, rw_number = is_number i,
          rw_issue_title = is_title i, rw_series_id = is_series_id i,
          rw_story_titles = group_concat newline (map (\<lambda>j. nonempty (story_col st_title j)) g),
          rw_synopses = None, rw_full = None\<rparr>)"

text \<open>
  The order of text under SQLite's BINARY collation: character by character by code, a
  proper prefix first. \<open>sort_strings\<close> sorts by it.
\<close>

definition char_le :: "char \<Rightarrow> char \<Rightarrow> bool" where
  "char_le c d = ((of_char c :: nat) \<le> of_char d)"

fun str_le :: "string \<Rightarrow> string \<Rightarrow> bool" where
  "str_le [] t = True"
| "str_le (c # cs) [] = False"
| "str_le (c # cs) (d # ds) = (if c = d then str_le cs ds else char_le c d)"

fun insert_sorted :: "string \<Rightarrow> string list \<Rightarrow> string list" where
  "insert_sorted x [] = [x]"
| "insert_sorted x (y # ys) = (if str_le x y then x # y # ys else y # insert_sorted x ys)"

fun sort_strings :: "string list \<Rightarrow> string list" where
  "sort_strings [] = []"
| "sort_strings (x # xs) = insert_sorted x (sort_strings xs)"

text \<open>
  The groups of \<^verbatim>\<open>GROUP BY gcd_issue.number\<close>: one per distinct number. SQL leaves the
  order of the groups open; SQLite forms them by sorting on the grouping column and returns
  them in that order, which is the order here.
\<close>

definition group_by_number :: "joined list \<Rightarrow> joined list list" where
  "group_by_number js =
     map (\<lambda>n. filter (\<lambda>j. is_number (fst j) = n) js)
         (sort_strings (remdups (map (\<lambda>j. is_number (fst j)) js)))"

text \<open>The listing query of \<^verbatim>\<open>fetch_issues_in_series\<close>.\<close>

definition sql_issues_in_series :: "env \<Rightarrow> int \<Rightarrow> row list" where
  "sql_issues_in_series e sid =
     map (listing_row e)
       (group_by_number
          (concat (map (join_stories (db e)) (filter (\<lambda>i. is_series_id i = sid) (issues (db e))))))"

text \<open>
  The WHERE clause of \<^verbatim>\<open>fetch_issues_by_series_issue_num_and_year\<close>. \<open>nn\<close> says which
  of the two texts was chosen: \<^verbatim>\<open>sql_search_issues_nn\<close> (with
  \<^verbatim>\<open>(number=? OR number='[nn]')\<close>) or \<^verbatim>\<open>sql_search_issues\<close>.
\<close>

definition number_wanted :: "bool \<Rightarrow> string \<Rightarrow> string \<Rightarrow> bool" where
  "number_wanted nn num n = (n = num \<or> (nn \<and> n = ''[nn]''))"

definition issues_matching :: "database \<Rightarrow> bool \<Rightarrow> int \<Rightarrow> string \<Rightarrow> string \<Rightarrow> issue_row list" where
  "issues_matching d nn sid num year_search =
     filter (\<lambda>i. is_series_id i = sid \<and> number_wanted nn num (is_number i)
                \<and> (sql_like year_search (is_key_date i) \<or> is_key_date i = []))
            (issues d)"

definition sql_issues_by_number :: "env \<Rightarrow> bool \<Rightarrow> int \<Rightarrow> string \<Rightarrow> string \<Rightarrow> row list" where
  "sql_issues_by_number e nn sid num year_search =
     map (listing_row e)
       (group_by_number (concat (map (join_stories (db e)) (issues_matching (db e) nn sid num year_search))))"

text \<open>
  The query of \<^verbatim>\<open>_fetch_issue_data\<close>. With \<open>nn\<close> its WHERE clause is
  \<^verbatim>\<open>series_id=? AND number=? OR number='[nn]'\<close>, and AND binds tighter than OR.
\<close>

definition sql_issue_id_lookup :: "database \<Rightarrow> bool \<Rightarrow> int \<Rightarrow> string \<Rightarrow> issue_row list" where
  "sql_issue_id_lookup d nn sid num =
     filter (\<lambda>i. if nn then (is_series_id i = sid \<and> is_number i = num) \<or> is_number i = ''[nn]''
                 else is_series_id i = sid \<and> is_number i = num)
            (issues d)"

text \<open>The query of \<^verbatim>\<open>_fetch_issue_by_issue_id\<close> (\<^verbatim>\<open>GROUP BY gcd_issue.id\<close>).\<close>

definition full_row :: "env \<Rightarrow> joined list \<Rightarrow> row" where
  "full_row e g =
     (let i = fst (pick e g)
      in \<lparr>rw_id = is_id i, rw_key_date = is_key_date i, rw_number = is_number i,
          rw_issue_title = is_title i, rw_series_id = is_series_id i,
          rw_story_titles = group_concat newline (map (\<lambda>j. nonempty (story_col st_title j)) g),
          rw_synopses = group_concat (newline @ newline) (map (\<lambda>j. nonempty (story_col st_synopsis j)) g),
          rw_full = Some
            \<lparr>fc_issue_notes = is_notes i, fc_volume = is_volume i, fc_price = is_price i,
             fc_isbn = is_valid_isbn i, fc_imprint = is_imprint i, fc_maturity_rating = is_rating i,
             fc_characters = story_col st_characters (pick e g),
             fc_country = is_country i, fc_country_iso = is_country_iso i,
             fc_story_ids = group_concat newline (map (\<lambda>j. map_option (\<lambda>st. str_int (st_id st)) (snd j)) g),
             fc_language = is_language i, fc_language_iso = is_language_iso i,
             fc_genres = group_concat '';'' (map (\<lambda>j. nonempty (story_col st_genre j)) g)\<rparr>\<rparr>)"

definition sql_issue_by_id :: "env \<Rightarrow> int \<Rightarrow> row option" where
  "sql_issue_by_id e iid =
     (case concat (map (join_stories (db e)) (filter (\<lambda>i. is_id i = iid) (issues (db e)))) of
        [] \<Rightarrow> None
      | g \<Rightarrow> Some (full_row e g))"

text \<open>
  \<^verbatim>\<open>FROM gcd_publisher LEFT JOIN gcd_series ON gcd_series.publisher_id=gcd_publisher.id
  WHERE\<close> a condition on the series: the pairs of a series that meets the condition and
  its publisher. The condition excludes the rows without a series, and SQLite runs the join
  from the series table, so the pairs come in the order of the series.
\<close>

definition publisher_series :: "database \<Rightarrow> (series_row \<Rightarrow> bool) \<Rightarrow> (series_row \<times> publisher_row) list" where
  "publisher_series d cond =
     concat (map (\<lambda>r. map (\<lambda>p. (r, p)) (filter (\<lambda>p. pb_id p = sr_publisher_id r) (publishers d)))
                 (filter cond (series_tbl d)))"

text \<open>
  \<^verbatim>\<open>FROM fts LEFT JOIN gcd_series ... LEFT JOIN gcd_publisher ... WHERE fts MATCH ?\<close>:
  the series whose name the index matches, each with its publisher if it has one.
\<close>

definition sql_ft_search :: "env \<Rightarrow> string \<Rightarrow> (series_row \<times> publisher_row option) list" where
  "sql_ft_search e q =
     concat (map (\<lambda>r. case filter (\<lambda>p. pb_id p = sr_publisher_id r) (publishers (db e)) of
                         [] \<Rightarrow> [(r, None)]
                       | ps \<Rightarrow> map (\<lambda>p. (r, Some p)) ps)
                 (filter (\<lambda>r. fts_match e q (sr_name r)) (series_tbl (db e))))"

section \<open>The talker's operations\<close>

text \<open>
  Every operation takes the state and returns its result, or the exception it raises,
  together with the state it leaves behind. A \<^verbatim>\<open>with sqlite3.connect(self.db_file)\<close>
  block is recorded in the trace. \<open>db_opens\<close> says that the configured path held the
  database when the talker started. Where it did not, connecting or the first statement on
  a table fails with sqlite3.OperationalError (SQLite cannot open the path, or has opened a
  new empty file without the tables), which the handlers turn into TalkerDataError code 0.
\<close>

definition check_db_filename_not_empty :: "config \<Rightarrow> env \<Rightarrow> state \<Rightarrow> error option" where
  "check_db_filename_not_empty cfg e s =
     (if db_file cfg = [] then Some Db_path_empty
      else if \<not> path_is_file e s (db_file cfg) then Some Db_path_invalid
      else None)"

definition db_opens :: "config \<Rightarrow> env \<Rightarrow> bool" where
  "db_opens cfg e = is_file e (db_file cfg)"

text \<open>
  \<^verbatim>\<open>check_create_index\<close>: when the index is not in the database, CREATE INDEX needs
  the write lock, which SQLite refuses ("database is locked") while another connection
  still reads.
\<close>

definition check_create_index :: "config \<Rightarrow> env \<Rightarrow> state \<Rightarrow> (error + unit) \<times> state" where
  "check_create_index cfg e s =
     (case check_db_filename_not_empty cfg e s of
        Some err \<Rightarrow> (Inl err, s)
      | None \<Rightarrow>
          if \<not> has_issue_id_type_id_index s
          then (let s1 = connect cfg e s
                in if \<not> db_opens cfg e then (Inl Db_error, s1)
                   else if db_index s1 then (Inr (), s1\<lparr>has_issue_id_type_id_index := True\<rparr>)
                   else if read_pending s1 then (Inl Db_error, s1)
                   else (Inr (), s1\<lparr>has_issue_id_type_id_index := True, db_index := True\<rparr>))
          else (Inr (), s))"

text \<open>
  \<^verbatim>\<open>check_db_fts5\<close>: its first block connects to the file and then asks an in-memory
  database for the compile options, so it fails only when the path cannot be opened; its
  second block reads and writes the database.
\<close>

definition check_db_fts5 :: "config \<Rightarrow> env \<Rightarrow> state \<Rightarrow> (error + unit) \<times> state" where
  "check_db_fts5 cfg e s =
     (let s1 = connect cfg e s
      in if \<not> path_is_file e s1 (db_file cfg) then (Inl Db_error, s1)
         else if \<not> fts5_compiled e then (Inr (), s1\<lparr>has_fts5_checked := True\<rparr>)
         else (let s2 = connect cfg e s1
               in if \<not> db_opens cfg e then (Inl Db_error, s2)
                  else if db_fts_table s2 then (Inr (), s2\<lparr>has_fts5 := True, has_fts5_checked := True\<rparr>)
                  else (Inr (), s2\<lparr>db_fts_table := True\<rparr>)))"

text \<open>\<^verbatim>\<open>s.replace(c, r)\<close> for a single character \<open>c\<close>.\<close>

definition replace_char :: "char \<Rightarrow> string \<Rightarrow> string \<Rightarrow> string" where
  "replace_char c r s = concat (map (\<lambda>x. if x = c then r else [x]) s)"

definition like_pattern :: "string \<Rightarrow> string" where
  "like_pattern series_name = replace_char CHR '' '' ''%'' series_name @ ''%''"

definition fts_query :: "string \<Rightarrow> string" where
  "fts_query series_name =
     replace_char CHR '' '' [CHR 0x22, CHR '' '', CHR 0x22]
       ([CHR 0x22] @ replace_char (CHR 0x22) [CHR 0x22, CHR 0x22]
                       (replace_char (CHR 0x27) [CHR 0x27, CHR 0x27] series_name) @ [CHR 0x22])"

text \<open>\<^verbatim>\<open>ComicSeries\<close> as \<^verbatim>\<open>_format_search_results\<close> fills it.\<close>

record comic_series =
  cs_aliases :: "string set"
  cs_count_of_issues :: "int option"
  cs_count_of_volumes :: "int option"
  cs_description :: string
  cs_id :: string
  cs_image_url :: string
  cs_name :: string
  cs_publisher :: "string option"
  cs_format :: "string option"
  cs_start_year :: "int option"

definition format_search_result :: "gcd_series \<Rightarrow> comic_series" where
  "format_search_result entry =
     \<lparr>cs_aliases = {}, cs_count_of_issues = gs_count_of_issues entry, cs_count_of_volumes = None,
      cs_description = gs_notes entry, cs_id = str_int (gs_id entry),
      cs_image_url = gs_image entry, cs_name = gs_name entry,
      cs_publisher = gs_publisher_name entry, cs_format = None,
      cs_start_year = gs_year_began entry\<rparr>"

definition format_search_results :: "gcd_series list \<Rightarrow> comic_series list" where
  "format_search_results search_results = map format_search_result search_results"

text \<open>The GCDSeries that \<^verbatim>\<open>search_for_series\<close> builds from a result row.\<close>

definition search_result :: "series_row \<Rightarrow> string option \<Rightarrow> gcd_series" where
  "search_result r publisher =
     \<lparr>gs_count_of_issues = sr_issue_count r, gs_notes = sr_notes r, gs_id = sr_id r,
      gs_name = sr_name r, gs_sort_name = sr_sort_name r, gs_publisher_name = publisher,
      gs_format = [], gs_year_began = sr_year_began r, gs_year_ended = sr_year_ended r,
      gs_image = [], gs_cover_downloaded = False\<rparr>"

definition search_rows :: "env \<Rightarrow> state \<Rightarrow> string \<Rightarrow> bool \<Rightarrow> gcd_series list" where
  "search_rows e s series_name literal =
     (if literal
      then map (\<lambda>(r, p). search_result r (Some (pb_name p)))
             (publisher_series (db e) (\<lambda>r. sr_name r = series_name))
      else if \<not> has_fts5 s
      then map (\<lambda>(r, p). search_result r (Some (pb_name p)))
             (publisher_series (db e) (\<lambda>r. sql_like (like_pattern series_name) (sr_name r)))
      else map (\<lambda>(r, p). search_result r (map_option pb_name p))
             (sql_ft_search e (fts_query series_name)))"

definition search_for_series ::
  "config \<Rightarrow> env \<Rightarrow> string \<Rightarrow> (int \<Rightarrow> int \<Rightarrow> unit) option \<Rightarrow> bool \<Rightarrow> bool \<Rightarrow> int \<Rightarrow> state
     \<Rightarrow> (error + comic_series list) \<times> state" where
  "search_for_series cfg e series_name callback refresh_cache literal series_match_thresh s =
     (case check_db_filename_not_empty cfg e s of
        Some err \<Rightarrow> (Inl err, s)
      | None \<Rightarrow>
          (case (if \<not> has_fts5_checked s then check_db_fts5 cfg e s else (Inr (), s)) of
             (Inl err, s1) \<Rightarrow> (Inl err, s1)
           | (Inr _, s1) \<Rightarrow>
               (let s2 = connect cfg e s1
                in if \<not> db_opens cfg e then (Inl Db_error, s2)
                   else (Inr (format_search_results (search_rows e s1 series_name literal)), s2))))"

subsection \<open>Cover images\<close>

definition before_query :: "string \<Rightarrow> string" where
  "before_query src = (case split ''?'' src of [] \<Rightarrow> [] | x # _ \<Rightarrow> x)"

definition find_issue_images :: "env \<Rightarrow> int \<Rightarrow> state \<Rightarrow> (error + string \<times> string list) \<times> state" where
  "find_issue_images e issue_id s =
     (let s1 = log_event (Net_get issue_id) s
      in case cover_imgs e issue_id of
           None \<Rightarrow> (Inl Network_error, s1)
         | Some img_list \<Rightarrow>
             (case map before_query img_list of
                [] \<Rightarrow> (Inr ([], []), s1)
              | cover # variants \<Rightarrow> (Inr (cover, variants), s1)))"

definition find_series_image :: "config \<Rightarrow> env \<Rightarrow> int \<Rightarrow> state \<Rightarrow> (error + string) \<times> state" where
  "find_series_image cfg e series_id s =
     (let s1 = connect cfg e s
      in if \<not> db_opens cfg e then (Inl Db_error, s1)
         else (case filter (\<lambda>r. sr_id r = series_id) (series_tbl (db e)) of
                 [] \<Rightarrow> (Inl Type_error, s1)
               | r # _ \<Rightarrow>
                   (case sr_first_issue_id r of
                      None \<Rightarrow> (Inr [], s1)
                    | Some issue_id \<Rightarrow>
                        if issue_id \<noteq> 0
                        then (case find_issue_images e issue_id s1 of
                                (Inl err, s2) \<Rightarrow> (Inl err, s2)
                              | (Inr (cover, _), s2) \<Rightarrow> (Inr cover, s2))
                        else (Inr [], s1))))"

subsection \<open>Series data and its cache\<close>

text \<open>
  The part of \<^verbatim>\<open>_fetch_series_data\<close> after the cache lookup: the query, the optional
  cover, the GCDSeries, and the write to the cache.
\<close>

definition query_series_data :: "config \<Rightarrow> env \<Rightarrow> int \<Rightarrow> state \<Rightarrow> (error + gcd_series) \<times> state" where
  "query_series_data cfg e series_id s =
     (let s1 = connect cfg e s
      in if \<not> db_opens cfg e then (Inl Db_error, s1)
         else (case (if download_gui_covers cfg then find_series_image cfg e series_id s1
                     else (Inr [], s1)) of
                 (Inl err, s2) \<Rightarrow> (Inl err, s2)
               | (Inr img, s2) \<Rightarrow>
                   (case publisher_series (db e) (\<lambda>r. sr_id r = series_id) of
                      [] \<Rightarrow> (Inl Type_error, s2)
                    | (r, p) # _ \<Rightarrow>
                        (let result =
                           \<lparr>gs_count_of_issues = sr_issue_count r, gs_notes = sr_notes r,
                            gs_id = sr_id r, gs_name = sr_name r, gs_sort_name = sr_sort_name r,
                            gs_publisher_name = Some (pb_name p),
                            gs_format = sr_publishing_format r, gs_year_began = sr_year_began r,
                            gs_year_ended = sr_year_ended r, gs_image = img,
                            gs_cover_downloaded = download_gui_covers cfg\<rparr>
                         in (Inr result,
                             s2\<lparr>cache_series := (cache_series s2)(gs_id result \<mapsto> (result, True))\<rparr>)))))"

definition fetch_series_data :: "config \<Rightarrow> env \<Rightarrow> int \<Rightarrow> state \<Rightarrow> (error + gcd_series) \<times> state" where
  "fetch_series_data cfg e series_id s =
     (case cache_series s series_id of
        Some (cache, True) \<Rightarrow>
          if download_gui_covers cfg \<and> gs_cover_downloaded cache then (Inr cache, s)
          else if \<not> download_gui_covers cfg then (Inr cache, s)
          else query_series_data cfg e series_id s
      | _ \<Rightarrow> query_series_data cfg e series_id s)"

definition fetch_series :: "config \<Rightarrow> env \<Rightarrow> int \<Rightarrow> state \<Rightarrow> (error + comic_series) \<times> state" where
  "fetch_series cfg e series_id s =
     (case fetch_series_data cfg e series_id s of
        (Inl err, s1) \<Rightarrow> (Inl err, s1)
      | (Inr series, s1) \<Rightarrow> (Inr (format_search_result series), s1))"

subsection \<open>Issues\<close>

text \<open>
  \<^verbatim>\<open>int(s)\<close> for a string: surrounding whitespace is dropped, then come an optional
  sign and decimal digits, with single underscores allowed between digits; any other text
  is a ValueError (\<open>None\<close>).
\<close>

definition digit_val :: "char \<Rightarrow> nat option" where
  "digit_val c = map_of (zip digit_chars [0, 1, 2, 3, 4, 5, 6, 7, 8, 9]) c"

fun nat_of_digits :: "string \<Rightarrow> nat \<Rightarrow> nat option" where
  "nat_of_digits [] acc = Some acc"
| "nat_of_digits (c # cs) acc =
     (case digit_val c of None \<Rightarrow> None | Some d \<Rightarrow> nat_of_digits cs (10 * acc + d))"

fun digits_grouped :: "bool \<Rightarrow> string \<Rightarrow> bool" where
  "digits_grouped after_digit [] = after_digit"
| "digits_grouped after_digit (c # cs) =
     (if c \<in> set digit_chars then digits_grouped True cs
      else c = CHR ''_'' \<and> after_digit \<and> digits_grouped False cs)"

definition unsigned_int :: "string \<Rightarrow> nat option" where
  "unsigned_int ds =
     (if digits_grouped False ds then nat_of_digits (filter (\<lambda>c. c \<noteq> CHR ''_'') ds) 0 else None)"

definition py_int :: "string \<Rightarrow> int option" where
  "py_int s =
     (case strip s of
        [] \<Rightarrow> None
      | c # cs \<Rightarrow>
          if c = CHR ''-'' then map_option (\<lambda>n. - int n) (unsigned_int cs)
          else if c = CHR ''+'' then map_option int (unsigned_int cs)
          else map_option int (unsigned_int (c # cs)))"

text \<open>\<^verbatim>\<open>v.split(sep) if v else []\<close> for a column that may be NULL.\<close>

definition split_truthy :: "string \<Rightarrow> string option \<Rightarrow> string list" where
  "split_truthy sep v = (case v of None \<Rightarrow> [] | Some t \<Rightarrow> if t = [] then [] else split sep t)"

definition format_gcd_issue :: "row \<Rightarrow> bool \<Rightarrow> error + gcd_issue" where
  "format_gcd_issue r complete =
     (let gcd_issue =
        \<lparr>gi_id = rw_id r, gi_key_date = rw_key_date r, gi_number = rw_number r,
         gi_issue_title = rw_issue_title r, gi_series_id = rw_series_id r,
         gi_issue_notes = None, gi_volume = None, gi_imprint = None, gi_price = None,
         gi_isbn = None, gi_maturity_rating = None, gi_country = None, gi_country_iso = None,
         gi_story_ids = [], gi_characters = [], gi_language = None, gi_language_iso = None,
         gi_story_titles = (case rw_story_titles r of None \<Rightarrow> [] | Some t \<Rightarrow> split newline t),
         gi_genres = [],
         gi_synopses = (case rw_synopses r of None \<Rightarrow> [] | Some t \<Rightarrow> split (newline @ newline) t),
         gi_image = [], gi_alt_image_urls = [], gi_credits = [], gi_covers_downloaded = False\<rparr>
      in if complete
         then (case rw_full r of
                 None \<Rightarrow> Inl Key_error
               | Some fc \<Rightarrow>
                   Inr (gcd_issue
                     \<lparr>gi_issue_notes := Some (fc_issue_notes fc), gi_volume := fc_volume fc,
                      gi_price := fc_price fc, gi_isbn := fc_isbn fc, gi_imprint := fc_imprint fc,
                      gi_maturity_rating := fc_maturity_rating fc,
                      gi_characters := split_truthy ''; '' (fc_characters fc),
                      gi_country := fc_country fc, gi_country_iso := fc_country_iso fc,
                      gi_story_ids := split_truthy newline (fc_story_ids fc),
                      gi_language := fc_language fc, gi_language_iso := fc_language_iso fc,
                      gi_genres := map (\<lambda>genre. capitalize (strip genre)) (split_truthy '';'' (fc_genres fc)),
                      gi_credits := []\<rparr>))
         else Inr gcd_issue)"

fun story_credits_loop :: "database \<Rightarrow> string list \<Rightarrow> gcd_credit list \<Rightarrow> error + gcd_credit list" where
  "story_credits_loop d [] credit_results = Inr credit_results"
| "story_credits_loop d (story_id # story_id_list) credit_results =
     (case py_int story_id of
        None \<Rightarrow> Inl Value_error
      | Some n \<Rightarrow> story_credits_loop d story_id_list (credit_results @ story_credits d n))"

definition find_issue_credits ::
  "config \<Rightarrow> env \<Rightarrow> int \<Rightarrow> string list \<Rightarrow> state \<Rightarrow> (error + gcd_credit list) \<times> state" where
  "find_issue_credits cfg e issue_id story_id_list s =
     (let s1 = connect cfg e s
      in if \<not> db_opens cfg e then (Inl Db_error, s1)
         else (story_credits_loop (db e) story_id_list (issue_credits (db e) issue_id), s1))"

text \<open>The part of \<^verbatim>\<open>_fetch_issue_by_issue_id\<close> after the cache lookup.\<close>

definition query_issue_by_issue_id :: "config \<Rightarrow> env \<Rightarrow> int \<Rightarrow> state \<Rightarrow> (error + gcd_issue) \<times> state" where
  "query_issue_by_issue_id cfg e issue_id s =
     (case check_create_index cfg e s of
        (Inl err, s1) \<Rightarrow> (Inl err, s1)
      | (Inr _, s1) \<Rightarrow>
          (let s2 = connect cfg e s1
           in if \<not> db_opens cfg e then (Inl Db_error, s2)
              else (case sql_issue_by_id e issue_id of
                      None \<Rightarrow> (Inl (Issue_not_found issue_id), s2)
                    | Some r \<Rightarrow>
                        (case format_gcd_issue r True of
                           Inl err \<Rightarrow> (Inl err, s2)
                         | Inr issue_result \<Rightarrow>
                             (case find_issue_credits cfg e issue_id (gi_story_ids issue_result) s2 of
                                (Inl err, s3) \<Rightarrow> (Inl err, s3)
                              | (Inr credits, s3) \<Rightarrow>
                                  (case (if download_gui_covers cfg
                                         then (case find_issue_images e (gi_id issue_result) s3 of
                                                 (Inl err, s4) \<Rightarrow> (Inl err, s4)
                                               | (Inr (img, variants), s4) \<Rightarrow>
                                                   (Inr (issue_result
                                                      \<lparr>gi_credits := credits, gi_image := img,
                                                       gi_alt_image_urls := variants,
                                                       gi_covers_downloaded := True\<rparr>), s4))
                                         else (Inr (issue_result
                                                 \<lparr>gi_credits := credits,
                                                  gi_covers_downloaded := False\<rparr>), s3)) of
                                     (Inl err, s5) \<Rightarrow> (Inl err, s5)
                                   | (Inr final, s5) \<Rightarrow>
                                       (Inr final,
                                        s5\<lparr>cache_issues :=
                                             (cache_issues s5)(gi_id final \<mapsto> (final, True))\<rparr>)))))))"

definition fetch_issue_by_issue_id :: "config \<Rightarrow> env \<Rightarrow> int \<Rightarrow> state \<Rightarrow> (error + gcd_issue) \<times> state" where
  "fetch_issue_by_issue_id cfg e issue_id s =
     (case cache_issues s issue_id of
        Some (cache, True) \<Rightarrow>
          if download_gui_covers cfg \<and> gi_covers_downloaded cache then (Inr cache, s)
          else if \<not> download_gui_covers cfg then (Inr cache, s)
          else query_issue_by_issue_id cfg e issue_id s
      | _ \<Rightarrow> query_issue_by_issue_id cfg e issue_id s)"

definition fetch_issue_data_by_issue_id ::
  "'f ext \<Rightarrow> config \<Rightarrow> env \<Rightarrow> int \<Rightarrow> state \<Rightarrow> (error + 'f metadata) \<times> state" where
  "fetch_issue_data_by_issue_id ex cfg e issue_id s =
     (case fetch_issue_by_issue_id cfg e issue_id s of
        (Inl err, s1) \<Rightarrow> (Inl err, s1)
      | (Inr issue, s1) \<Rightarrow>
          (case fetch_series_data cfg e (gi_series_id issue) s1 of
             (Inl err, s2) \<Rightarrow> (Inl err, s2)
           | (Inr series, s2) \<Rightarrow> (Inr (map_comic_issue_to_metadata ex cfg issue series), s2)))"

text \<open>
  \<^verbatim>\<open>_fetch_issue_data\<close>: \<^verbatim>\<open>row = cur.fetchone()\<close> is None when the query selects
  nothing, and \<^verbatim>\<open>row["id"]\<close> on None is a TypeError, which no handler catches. The
  issue is then fetched while the connection and its cursor are still open: when the query
  selected more than one row, the rest is pending and the read lock is held until the
  function returns.
\<close>

definition fetch_issue_data ::
  "'f ext \<Rightarrow> config \<Rightarrow> env \<Rightarrow> int \<Rightarrow> string \<Rightarrow> state \<Rightarrow> (error + 'f metadata) \<times> state" where
  "fetch_issue_data ex cfg e series_id issue_number s =
     (let s1 = connect cfg e s
      in if \<not> db_opens cfg e then (Inl Db_error, s1)
         else (case sql_issue_id_lookup (db e) (nn_is_issue_one cfg \<and> issue_number = ''1'')
                      series_id issue_number of
                 [] \<Rightarrow> (Inl Type_error, s1)
               | i # pending \<Rightarrow>
                   if is_id i \<noteq> 0
                   then (case fetch_issue_data_by_issue_id ex cfg e (is_id i)
                                (s1\<lparr>read_pending := (read_pending s1 \<or> pending \<noteq> [])\<rparr>) of
                           (res, s2) \<Rightarrow> (res, s2\<lparr>read_pending := read_pending s1\<rparr>))
                   else (Inr empty_md, s1)))"

text \<open>
  \<^verbatim>\<open>fetch_comic_data\<close>. Its id arguments are \<^verbatim>\<open>str | None\<close>, tested for truth and
  passed through \<^verbatim>\<open>int\<close>; here \<open>None\<close> stands for None or the empty string and
  \<open>Some n\<close> for the numeral of \<open>n\<close>.
\<close>

definition fetch_comic_data ::
  "'f ext \<Rightarrow> config \<Rightarrow> env \<Rightarrow> int option \<Rightarrow> int option \<Rightarrow> string \<Rightarrow> state
     \<Rightarrow> (error + 'f metadata) \<times> state" where
  "fetch_comic_data ex cfg e issue_id series_id issue_number s =
     (case check_db_filename_not_empty cfg e s of
        Some err \<Rightarrow> (Inl err, s)
      | None \<Rightarrow>
          (case issue_id of
             Some iid \<Rightarrow> fetch_issue_data_by_issue_id ex cfg e iid s
           | None \<Rightarrow>
               (case series_id of
                  Some sid \<Rightarrow>
                    if issue_number \<noteq> [] then fetch_issue_data ex cfg e sid issue_number s
                    else (Inr empty_md, s)
                | None \<Rightarrow> (Inr empty_md, s))))"

fun format_rows :: "row list \<Rightarrow> error + gcd_issue list" where
  "format_rows [] = Inr []"
| "format_rows (r # rs) =
     (case format_gcd_issue r False of
        Inl err \<Rightarrow> Inl err
      | Inr issue \<Rightarrow> (case format_rows rs of Inl err \<Rightarrow> Inl err | Inr formatted \<Rightarrow> Inr (issue # formatted)))"

definition fetch_issues_in_series ::
  "'f ext \<Rightarrow> config \<Rightarrow> env \<Rightarrow> int \<Rightarrow> state \<Rightarrow> (error + 'f metadata list) \<times> state" where
  "fetch_issues_in_series ex cfg e series_id s =
     (case fetch_series_data cfg e series_id s of
        (Inl err, s1) \<Rightarrow> (Inl err, s1)
      | (Inr series, s1) \<Rightarrow>
          (case check_create_index cfg e s1 of
             (Inl err, s2) \<Rightarrow> (Inl err, s2)
           | (Inr _, s2) \<Rightarrow>
               (let s3 = connect cfg e s2
                in if \<not> db_opens cfg e then (Inl Db_error, s3)
                   else (case sql_issues_in_series e series_id of
                           [] \<Rightarrow> (Inr [empty_md], s3)
                         | rows \<Rightarrow>
                             (case format_rows rows of
                                Inl err \<Rightarrow> (Inl err, s3)
                              | Inr results \<Rightarrow>
                                  (Inr (map (\<lambda>x. map_comic_issue_to_metadata ex cfg x series) results),
                                   s3))))))"

text \<open>
  The two loops of \<^verbatim>\<open>fetch_issues_by_series_issue_num_and_year\<close>: over the rows of one
  series, and over the series ids. The ids are \<^verbatim>\<open>list[str]\<close> in the source, bound to
  the integer column as they are and passed through \<^verbatim>\<open>int\<close> for the series lookup;
  here they are the integers.
\<close>

fun issues_loop ::
  "'f ext \<Rightarrow> config \<Rightarrow> env \<Rightarrow> gcd_series \<Rightarrow> row list \<Rightarrow> 'f metadata list \<Rightarrow> state
     \<Rightarrow> (error + 'f metadata list) \<times> state" where
  "issues_loop ex cfg e series [] results s = (Inr results, s)"
| "issues_loop ex cfg e series (r # rows) results s =
     (case format_gcd_issue r False of
        Inl err \<Rightarrow> (Inl err, s)
      | Inr issue \<Rightarrow>
          if download_tag_covers cfg
          then (case find_issue_images e (gi_id issue) s of
                  (Inl err, s1) \<Rightarrow> (Inl err, s1)
                | (Inr (img, variants), s1) \<Rightarrow>
                    issues_loop ex cfg e series rows
                      (results @ [map_comic_issue_to_metadata ex cfg
                                    (issue\<lparr>gi_image := img, gi_alt_image_urls := variants,
                                           gi_covers_downloaded := True\<rparr>) series]) s1)
          else issues_loop ex cfg e series rows
                 (results @ [map_comic_issue_to_metadata ex cfg issue series]) s)"

fun series_loop ::
  "'f ext \<Rightarrow> config \<Rightarrow> env \<Rightarrow> bool \<Rightarrow> string \<Rightarrow> string \<Rightarrow> int list \<Rightarrow> 'f metadata list \<Rightarrow> state
     \<Rightarrow> (error + 'f metadata list) \<times> state" where
  "series_loop ex cfg e nn issue_number year_search [] results s = (Inr results, s)"
| "series_loop ex cfg e nn issue_number year_search (vid # vids) results s =
     (case fetch_series_data cfg e vid s of
        (Inl err, s1) \<Rightarrow> (Inl err, s1)
      | (Inr series, s1) \<Rightarrow>
          (case issues_loop ex cfg e series
                  (sql_issues_by_number e nn vid issue_number year_search) results s1 of
             (Inl err, s2) \<Rightarrow> (Inl err, s2)
           | (Inr results', s2) \<Rightarrow>
               series_loop ex cfg e nn issue_number year_search vids results' s2))"

definition year_pattern :: "int option \<Rightarrow> string" where
  "year_pattern year =
     (case year of None \<Rightarrow> ''%'' | Some y \<Rightarrow> if y \<noteq> 0 then str_int y @ ''%'' else ''%'')"

definition fetch_issues_by_series_issue_num_and_year ::
  "'f ext \<Rightarrow> config \<Rightarrow> env \<Rightarrow> int list \<Rightarrow> string \<Rightarrow> int option \<Rightarrow> state
     \<Rightarrow> (error + 'f metadata list) \<times> state" where
  "fetch_issues_by_series_issue_num_and_year ex cfg e series_id_list issue_number year s =
     (case check_create_index cfg e s of
        (Inl err, s1) \<Rightarrow> (Inl err, s1)
      | (Inr _, s1) \<Rightarrow>
          (let s2 = connect cfg e s1
           in if \<not> db_opens cfg e then (Inl Db_error, s2)
              else series_loop ex cfg e (nn_is_issue_one cfg \<and> issue_number = ''1'') issue_number
                     (year_pattern year) series_id_list [] s2))"

section \<open>A sample database\<close>

text \<open>
  A fresh talker (the flags of \<^verbatim>\<open>__init__\<close>, empty caches), and a small world: the
  file \<^verbatim>\<open>gcd.db\<close> exists, one publisher has the two series 10 and 99, no credits, no
  FTS5, cover pages without images, the first row of a group gives its ungrouped columns,
  and SQLite can create a file at any missing path; the issue and story tables are
  arguments.
\<close>

definition initial_state :: state where
  "initial_state =
     \<lparr>has_issue_id_type_id_index = False, has_fts5 = False, has_fts5_checked = False,
      db_index = False, db_fts_table = False, cache_series = (\<lambda>k. None),
      cache_issues = (\<lambda>k. None), trace = [], created_files = {}, read_pending = False\<rparr>"

definition sample_series :: "int \<Rightarrow> string \<Rightarrow> series_row" where
  "sample_series n nm =
     \<lparr>sr_id = n, sr_name = nm, sr_sort_name = None, sr_notes = [], sr_year_began = None,
      sr_year_ended = None, sr_issue_count = None, sr_publisher_id = 1,
      sr_publishing_format = [], sr_first_issue_id = None\<rparr>"

definition sample_issue :: "int \<Rightarrow> int \<Rightarrow> string \<Rightarrow> issue_row" where
  "sample_issue n sid num =
     \<lparr>is_id = n, is_number = num, is_key_date = [], is_title = [], is_series_id = sid,
      is_price = None, is_valid_isbn = None, is_notes = [], is_volume = None, is_rating = None,
      is_country = None, is_country_iso = None, is_language = None, is_language_iso = None,
      is_imprint = None\<rparr>"

definition sample_story :: "int \<Rightarrow> int \<Rightarrow> string \<Rightarrow> string \<Rightarrow> story_row" where
  "sample_story n iid ttl genre =
     \<lparr>st_id = n, st_issue_id = iid, st_type_id = 19, st_title = Some ttl, st_genre = Some genre,
      st_synopsis = None, st_characters = None\<rparr>"

definition sample_env :: "issue_row list \<Rightarrow> story_row list \<Rightarrow> env" where
  "sample_env iss sts =
     \<lparr>is_file = (\<lambda>p. p = ''gcd.db''),
      db = \<lparr>issues = iss, stories = sts,
            series_tbl = [sample_series 10 ''Alpha'', sample_series 99 ''Omega''],
            publishers = [\<lparr>pb_id = 1, pb_name = ''Pub''\<rparr>],
            issue_credits = (\<lambda>k. []), story_credits = (\<lambda>k. [])\<rparr>,
      fts5_compiled = False, fts_match = (\<lambda>q n. False), cover_imgs = (\<lambda>k. Some []),
      pick = hd, can_create = (\<lambda>p. True)\<rparr>"

text \<open>The same world with the database file missing.\<close>

definition no_file_env :: env where
  "no_file_env = (sample_env [] [])\<lparr>is_file := (\<lambda>p. False)\<rparr>"

text \<open>A state whose caches hold complete entries, without covers, for series 10 and issue 7.\<close>

definition cached_state :: state where
  "cached_state =
     initial_state
       \<lparr>cache_series := [10 \<mapsto> (blank_series\<lparr>gs_id := 10\<rparr>, True)],
        cache_issues := [7 \<mapsto> (blank_issue\<lparr>gi_id := 7, gi_series_id := 10\<rparr>, True)]\<rparr>"

section \<open>The wording of the specification for the multi-series lookup\<close>

text \<open>
  The result of the multi-series lookup as the specification words it: all issue rows of
  the requested series whose number is "1" or, with the alias policy on, "[nn]".
\<close>

definition rows_as_specified :: "database \<Rightarrow> bool \<Rightarrow> int list \<Rightarrow> issue_row list" where
  "rows_as_specified d policy ids =
     filter (\<lambda>i. is_series_id i \<in> set ids
                \<and> (is_number i = ''1'' \<or> (policy \<and> is_number i = ''[nn]'')))
            (issues d)"

section \<open>The format classifier: properties\<close>

lemma star_rests_suffix: "r \<in> set (star_rests k s) \<Longrightarrow> \<exists>m. s = m @ r"
proof (induction s)
  case Nil
  then show ?case by simp
next
  case (Cons c cs)
  show ?case
  proof (cases "r = c # cs")
    case True
    then show ?thesis by simp
  next
    case False
    with Cons.prems have "r \<in> set (star_rests k cs)" by (auto split: if_splits)
    then obtain m where "cs = m @ r" using Cons.IH by blast
    then have "c # cs = (c # m) @ r" by simp
    then show ?thesis by blast
  qed
qed

lemma match_item_suffix: "r \<in> set (match_item i s) \<Longrightarrow> \<exists>m. s = m @ r"
proof (cases i)
  case (Lit l)
  assume "r \<in> set (match_item i s)"
  with Lit have "r = drop (length l) s" by (auto split: if_splits)
  then have "s = take (length l) s @ r" by simp
  then show ?thesis by blast
next
  case (Opt k)
  assume a: "r \<in> set (match_item i s)"
  show ?thesis
  proof (cases s)
    case Nil
    with a Opt show ?thesis by simp
  next
    case (Cons c cs)
    with a Opt have "r = cs \<or> r = c # cs" by (auto split: if_splits)
    then show ?thesis
    proof
      assume "r = cs"
      with Cons have "s = [c] @ r" by simp
      then show ?thesis by blast
    next
      assume "r = c # cs"
      with Cons show ?thesis by simp
    qed
  qed
next
  case (Star k)
  assume "r \<in> set (match_item i s)"
  with Star show ?thesis by (simp add: star_rests_suffix)
qed

lemma match_items_suffix: "r \<in> set (match_items is s) \<Longrightarrow> \<exists>m. s = m @ r"
proof (induction "is" arbitrary: s)
  case Nil
  then show ?case by simp
next
  case (Cons i "is")
  from Cons.prems obtain r1 where r1: "r1 \<in> set (match_item i s)" and r: "r \<in> set (match_items is r1)"
    by auto
  from r1 obtain m1 where "s = m1 @ r1" using match_item_suffix by blast
  moreover from r obtain m2 where "r1 = m2 @ r" using Cons.IH by blast
  ultimately have "s = (m1 @ m2) @ r" by simp
  then show ?case by blast
qed

lemma match_at_Some:
  assumes "match_at alts prev s = Some m"
  shows "\<exists>r a. s = m @ r \<and> a \<in> set alts \<and> r \<in> set (match_items a s)
            \<and> word_boundary prev (first_char s)
            \<and> word_boundary (last_char prev m) (first_char r)"
proof -
  let ?ok = "\<lambda>r. word_boundary (last_char prev (take (length s - length r) s)) (first_char r)"
  let ?rs = "concat (map (\<lambda>a. match_items a s) alts)"
  from assms have b: "word_boundary prev (first_char s)"
    by (auto simp: match_at_def split: if_splits)
  from assms b obtain r rest where f: "filter ?ok ?rs = r # rest" and m: "m = take (length s - length r) s"
    by (auto simp: match_at_def split: list.splits)
  from f have "r \<in> set (filter ?ok ?rs)" by simp
  then have rin: "r \<in> set ?rs" and ok: "?ok r" by auto
  from rin obtain a where a: "a \<in> set alts" "r \<in> set (match_items a s)" by auto
  then obtain m' where "s = m' @ r" using match_items_suffix by blast
  with m have "s = m @ r" by simp
  with a b ok m show ?thesis by blast
qed

lemma re_search_from_Some:
  "re_search_from alts prev s = Some m \<Longrightarrow>
   \<exists>pre post. s = pre @ m @ post \<and> match_at alts (last_char prev pre) (m @ post) = Some m
      \<and> (\<forall>k < length pre. match_at alts (last_char prev (take k pre)) (drop k s) = None)"
proof (induction s arbitrary: prev)
  case Nil
  then have "match_at alts prev [] = Some m" by simp
  moreover from this have "m = []" by (auto dest!: match_at_Some)
  ultimately have "[] = [] @ m @ [] \<and> match_at alts (last_char prev []) (m @ []) = Some m
     \<and> (\<forall>k < length ([]::string). match_at alts (last_char prev (take k [])) (drop k []) = None)"
    by (simp add: last_char_def)
  then show ?case by blast
next
  case (Cons c cs)
  show ?case
  proof (cases "match_at alts prev (c # cs)")
    case (Some m')
    with Cons.prems have mm: "m' = m" by simp
    from Some mm obtain r where "c # cs = m @ r" by (auto dest!: match_at_Some)
    with Some mm have "c # cs = [] @ m @ r \<and> match_at alts (last_char prev []) (m @ r) = Some m
      \<and> (\<forall>k < length ([]::string). match_at alts (last_char prev (take k [])) (drop k (c # cs)) = None)"
      by (simp add: last_char_def)
    then show ?thesis by blast
  next
    case None
    with Cons.prems have "re_search_from alts (Some c) cs = Some m" by simp
    from Cons.IH[OF this] obtain pre post where p: "cs = pre @ m @ post"
      "match_at alts (last_char (Some c) pre) (m @ post) = Some m"
      "\<forall>k < length pre. match_at alts (last_char (Some c) (take k pre)) (drop k cs) = None"
      by blast
    have l: "last_char prev (c # pre) = last_char (Some c) pre"
      by (simp add: last_char_def)
    have "\<forall>k < length (c # pre). match_at alts (last_char prev (take k (c # pre))) (drop k (c # cs)) = None"
    proof (intro allI impI)
      fix k assume k: "k < length (c # pre)"
      show "match_at alts (last_char prev (take k (c # pre))) (drop k (c # cs)) = None"
      proof (cases k)
        case 0
        with None show ?thesis by (simp add: last_char_def)
      next
        case (Suc j)
        with k have "j < length pre" by simp
        with p(3) have "match_at alts (last_char (Some c) (take j pre)) (drop j cs) = None" by blast
        moreover have "last_char prev (take k (c # pre)) = last_char (Some c) (take j pre)"
          using Suc by (simp add: last_char_def)
        ultimately show ?thesis using Suc by simp
      qed
    qed
    with p l have "c # cs = (c # pre) @ m @ post
        \<and> match_at alts (last_char prev (c # pre)) (m @ post) = Some m
        \<and> (\<forall>k < length (c # pre). match_at alts (last_char prev (take k (c # pre))) (drop k (c # cs)) = None)"
      by simp
    then show ?thesis by blast
  qed
qed

lemma star_rests_iff:
  "r \<in> set (star_rests k s) \<longleftrightarrow> (\<exists>m. s = m @ r \<and> list_all (in_class k) m)"
proof (induction s)
  case Nil
  then show ?case by auto
next
  case (Cons c cs)
  show ?case
  proof (cases "in_class k c")
    case True
    have "(\<exists>m. c # cs = m @ r \<and> list_all (in_class k) m)
          \<longleftrightarrow> r = c # cs \<or> (\<exists>m'. cs = m' @ r \<and> list_all (in_class k) m')"
      using True by (auto simp: Cons_eq_append_conv)
    with True Cons show ?thesis by auto
  next
    case False
    have "(\<exists>m. c # cs = m @ r \<and> list_all (in_class k) m) \<longleftrightarrow> r = c # cs"
      using False by (auto simp: Cons_eq_append_conv)
    with False show ?thesis by auto
  qed
qed

lemma casefold_length: "casefold m = casefold l \<Longrightarrow> length m = length l"
  unfolding casefold_def by (rule map_eq_imp_length_eq)

lemma match_item_iff:
  "r \<in> set (match_item i s) \<longleftrightarrow> (\<exists>m. s = m @ r \<and> item_matches i m)"
proof (cases i)
  case (Lit l)
  show ?thesis
  proof
    assume "r \<in> set (match_item i s)"
    with Lit have a: "length l \<le> length s" "casefold (take (length l) s) = casefold l"
      "r = drop (length l) s"
      by (auto split: if_splits)
    then have "s = take (length l) s @ r \<and> item_matches i (take (length l) s)"
      using Lit by simp
    then show "\<exists>m. s = m @ r \<and> item_matches i m" by blast
  next
    assume "\<exists>m. s = m @ r \<and> item_matches i m"
    then obtain m where m: "s = m @ r" "casefold m = casefold l" using Lit by auto
    from m(2) have "length m = length l" by (rule casefold_length)
    with m Lit show "r \<in> set (match_item i s)" by simp
  qed
next
  case (Opt k)
  show ?thesis
  proof (cases s)
    case Nil
    with Opt show ?thesis by (auto split: list.splits)
  next
    case (Cons c cs)
    have "(\<exists>m. c # cs = m @ r \<and> item_matches (Opt k) m)
          \<longleftrightarrow> r = c # cs \<or> (r = cs \<and> in_class k c)"
    proof
      assume "\<exists>m. c # cs = m @ r \<and> item_matches (Opt k) m"
      then obtain m where m: "c # cs = m @ r" "item_matches (Opt k) m" by blast
      show "r = c # cs \<or> (r = cs \<and> in_class k c)"
      proof (cases m)
        case Nil
        with m show ?thesis by simp
      next
        case (Cons x xs)
        with m(2) have "xs = []" "in_class k x" by simp_all
        with Cons m(1) show ?thesis by simp
      qed
    next
      assume "r = c # cs \<or> (r = cs \<and> in_class k c)"
      then show "\<exists>m. c # cs = m @ r \<and> item_matches (Opt k) m"
      proof
        assume "r = c # cs"
        then have "c # cs = [] @ r \<and> item_matches (Opt k) []" by simp
        then show ?thesis by blast
      next
        assume "r = cs \<and> in_class k c"
        then have "c # cs = [c] @ r \<and> item_matches (Opt k) [c]" by simp
        then show ?thesis by blast
      qed
    qed
    with Opt Cons show ?thesis by auto
  qed
next
  case (Star k)
  then show ?thesis by (simp add: star_rests_iff)
qed

lemma items_match_Cons:
  "items_match (i # is) m \<longleftrightarrow> (\<exists>m1 m2. m = m1 @ m2 \<and> item_matches i m1 \<and> items_match is m2)"
proof
  assume "items_match (i # is) m"
  then have "\<exists>n \<in> set [0..<Suc (length m)]. item_matches i (take n m) \<and> items_match is (drop n m)"
    by (simp only: items_match.simps list_ex_iff)
  then obtain n where "item_matches i (take n m)" "items_match is (drop n m)"
    by blast
  moreover have "m = take n m @ drop n m" by simp
  ultimately show "\<exists>m1 m2. m = m1 @ m2 \<and> item_matches i m1 \<and> items_match is m2" by blast
next
  assume "\<exists>m1 m2. m = m1 @ m2 \<and> item_matches i m1 \<and> items_match is m2"
  then obtain m1 m2 where m: "m = m1 @ m2" "item_matches i m1" "items_match is m2" by blast
  then have "length m1 \<in> set [0..<Suc (length m)]" "item_matches i (take (length m1) m)"
    "items_match is (drop (length m1) m)" by simp_all
  then have "\<exists>n \<in> set [0..<Suc (length m)]. item_matches i (take n m) \<and> items_match is (drop n m)"
    by blast
  then show "items_match (i # is) m"
    by (simp only: items_match.simps list_ex_iff)
qed

lemma match_items_iff:
  "r \<in> set (match_items is s) \<longleftrightarrow> (\<exists>m. s = m @ r \<and> items_match is m)"
proof (induction "is" arbitrary: s)
  case Nil
  then show ?case by auto
next
  case (Cons i "is")
  show ?case
  proof
    assume "r \<in> set (match_items (i # is) s)"
    then obtain r1 where r1: "r1 \<in> set (match_item i s)" "r \<in> set (match_items is r1)" by auto
    from r1(1) obtain m1 where m1: "s = m1 @ r1" "item_matches i m1"
      unfolding match_item_iff by blast
    from r1(2) obtain m2 where m2: "r1 = m2 @ r" "items_match is m2"
      unfolding Cons.IH by blast
    from m1 m2 have "s = (m1 @ m2) @ r" "items_match (i # is) (m1 @ m2)"
      unfolding items_match_Cons by auto
    then show "\<exists>m. s = m @ r \<and> items_match (i # is) m" by blast
  next
    assume "\<exists>m. s = m @ r \<and> items_match (i # is) m"
    then obtain m1 m2 where m: "s = (m1 @ m2) @ r" "item_matches i m1" "items_match is m2"
      unfolding items_match_Cons by blast
    then have "m2 @ r \<in> set (match_item i s)" unfolding match_item_iff by auto
    moreover from m(3) have "r \<in> set (match_items is (m2 @ r))" unfolding Cons.IH by blast
    ultimately show "r \<in> set (match_items (i # is) s)" by auto
  qed
qed

lemma match_at_iff:
  "match_at alts prev s \<noteq> None \<longleftrightarrow>
     word_boundary prev (first_char s)
     \<and> (\<exists>m r. s = m @ r \<and> (\<exists>a \<in> set alts. items_match a m)
            \<and> word_boundary (last_char prev m) (first_char r))"
proof -
  let ?ok = "\<lambda>r. word_boundary (last_char prev (take (length s - length r) s)) (first_char r)"
  let ?rs = "concat (map (\<lambda>a. match_items a s) alts)"
  have "match_at alts prev s \<noteq> None \<longleftrightarrow> word_boundary prev (first_char s) \<and> filter ?ok ?rs \<noteq> []"
    by (simp add: match_at_def split: list.splits)
  also have "filter ?ok ?rs \<noteq> [] \<longleftrightarrow> (\<exists>r \<in> set ?rs. ?ok r)"
    by (simp add: filter_empty_conv)
  also have "(\<exists>r \<in> set ?rs. ?ok r) \<longleftrightarrow>
      (\<exists>m r. s = m @ r \<and> (\<exists>a \<in> set alts. items_match a m)
            \<and> word_boundary (last_char prev m) (first_char r))"
  proof
    assume "\<exists>r \<in> set ?rs. ?ok r"
    then obtain r a where r: "a \<in> set alts" "r \<in> set (match_items a s)" "?ok r" by auto
    from r(2) obtain m where m: "s = m @ r" "items_match a m" unfolding match_items_iff by blast
    with r(3) have "word_boundary (last_char prev m) (first_char r)" by simp
    with m r(1) show "\<exists>m r. s = m @ r \<and> (\<exists>a \<in> set alts. items_match a m)
            \<and> word_boundary (last_char prev m) (first_char r)" by blast
  next
    assume "\<exists>m r. s = m @ r \<and> (\<exists>a \<in> set alts. items_match a m)
            \<and> word_boundary (last_char prev m) (first_char r)"
    then obtain m r a where m: "s = m @ r" "a \<in> set alts" "items_match a m"
      "word_boundary (last_char prev m) (first_char r)" by blast
    then have "r \<in> set (match_items a s)" unfolding match_items_iff by blast
    with m(2) have "r \<in> set ?rs" by auto
    moreover from m(1,4) have "?ok r" by simp
    ultimately show "\<exists>r \<in> set ?rs. ?ok r" by blast
  qed
  finally show ?thesis .
qed

lemma match_at_items:
  assumes "match_at alts prev s = Some m"
  shows "\<exists>r. s = m @ r \<and> (\<exists>a \<in> set alts. items_match a m)
            \<and> word_boundary prev (first_char s)
            \<and> word_boundary (last_char prev m) (first_char r)"
proof -
  from match_at_Some[OF assms] obtain r a where r: "s = m @ r" "a \<in> set alts"
    "r \<in> set (match_items a s)" "word_boundary prev (first_char s)"
    "word_boundary (last_char prev m) (first_char r)" by blast
  from r(3) obtain m' where "s = m' @ r" "items_match a m'" unfolding match_items_iff by blast
  with r(1) have "items_match a m" by simp
  with r show ?thesis by blast
qed

lemma re_search_from_None:
  "re_search_from alts prev s = None \<Longrightarrow> k \<le> length s \<Longrightarrow>
   match_at alts (last_char prev (take k s)) (drop k s) = None"
proof (induction s arbitrary: prev k)
  case Nil
  then show ?case by (simp add: last_char_def)
next
  case (Cons c cs)
  from Cons.prems(1) have n: "match_at alts prev (c # cs) = None"
    "re_search_from alts (Some c) cs = None"
    by (auto split: option.splits)
  show ?case
  proof (cases k)
    case 0
    with n show ?thesis by (simp add: last_char_def)
  next
    case (Suc j)
    with Cons.prems(2) have "j \<le> length cs" by simp
    from Cons.IH[OF n(2) this] have "match_at alts (last_char (Some c) (take j cs)) (drop j cs) = None" .
    moreover have "last_char prev (take k (c # cs)) = last_char (Some c) (take j cs)"
      using Suc by (simp add: last_char_def)
    ultimately show ?thesis using Suc by simp
  qed
qed

lemma occurs_at_match_at:
  "occurs_at alts pre m post \<longleftrightarrow>
     (\<exists>a \<in> set alts. items_match a m)
     \<and> word_boundary (last_char None pre) (first_char (m @ post))
     \<and> word_boundary (last_char (last_char None pre) m) (first_char post)"
  by (simp add: occurs_at_def list_ex_iff)

lemma occurrence_is_found:
  assumes "occurs_at alts pre m post"
  shows "match_at alts (last_char None pre) (m @ post) \<noteq> None"
  unfolding match_at_iff using assms unfolding occurs_at_match_at by blast

lemma re_search_None_iff:
  "re_search alts s = None \<longleftrightarrow> \<not> (\<exists>pre m post. s = pre @ m @ post \<and> occurs_at alts pre m post)"
proof
  assume n: "re_search alts s = None"
  show "\<not> (\<exists>pre m post. s = pre @ m @ post \<and> occurs_at alts pre m post)"
  proof
    assume "\<exists>pre m post. s = pre @ m @ post \<and> occurs_at alts pre m post"
    then obtain pre m post where o: "s = pre @ m @ post" "occurs_at alts pre m post" by blast
    from n have "re_search_from alts None s = None" by (simp add: re_search_def)
    from re_search_from_None[OF this, of "length pre"] o(1)
    have "match_at alts (last_char None pre) (m @ post) = None" by simp
    with occurrence_is_found[OF o(2)] show False by simp
  qed
next
  assume no: "\<not> (\<exists>pre m post. s = pre @ m @ post \<and> occurs_at alts pre m post)"
  show "re_search alts s = None"
  proof (rule ccontr)
    assume "re_search alts s \<noteq> None"
    then obtain m where "re_search_from alts None s = Some m" by (auto simp: re_search_def)
    from re_search_from_Some[OF this] obtain pre post where
      p: "s = pre @ m @ post" "match_at alts (last_char None pre) (m @ post) = Some m" by blast
    from match_at_items[OF p(2)] have "occurs_at alts pre m post"
      unfolding occurs_at_match_at by auto
    with p(1) no show False by blast
  qed
qed

lemma re_search_Some:
  assumes "re_search alts s = Some m"
  shows "\<exists>pre post. s = pre @ m @ post \<and> occurs_at alts pre m post
     \<and> \<not> (\<exists>pre' m' post'. s = pre' @ m' @ post' \<and> length pre' < length pre
             \<and> occurs_at alts pre' m' post')"
proof -
  from assms have "re_search_from alts None s = Some m" by (simp add: re_search_def)
  from re_search_from_Some[OF this] obtain pre post where
    p: "s = pre @ m @ post" "match_at alts (last_char None pre) (m @ post) = Some m"
    "\<forall>k < length pre. match_at alts (last_char None (take k pre)) (drop k s) = None" by blast
  from match_at_items[OF p(2)] have o: "occurs_at alts pre m post"
    unfolding occurs_at_match_at by auto
  have "\<not> (\<exists>pre' m' post'. s = pre' @ m' @ post' \<and> length pre' < length pre
             \<and> occurs_at alts pre' m' post')"
  proof
    assume "\<exists>pre' m' post'. s = pre' @ m' @ post' \<and> length pre' < length pre
             \<and> occurs_at alts pre' m' post'"
    then obtain pre' m' post' where e: "s = pre' @ m' @ post'" "length pre' < length pre"
      "occurs_at alts pre' m' post'" by blast
    from e(1,2) p(1) have t: "take (length pre') pre = pre'"
      by (metis append_eq_append_conv_if append_eq_conv_conj less_imp_le_nat)
    from e(1) have d: "drop (length pre') s = m' @ post'" by simp
    from p(3) e(2) have "match_at alts (last_char None (take (length pre') pre)) (drop (length pre') s) = None"
      by blast
    with t d have "match_at alts (last_char None pre') (m' @ post') = None" by simp
    with occurrence_is_found[OF e(3)] show False by simp
  qed
  with p(1) o show ?thesis by blast
qed

lemma classifier_examples:
  "match_format ''Trade Paperback (2019 series)'' = Some ''Trade Paperback''"
  "match_format ''Collects issues #1-6'' = Some ''Collection''"
  "match_format ''ongoing'' = None"
  "match_format ''annuals'' = None"
  "match_format ''biannual'' = None"
  "match_format ''trade paperback'' = Some ''Trade Paperback''"
  "match_format ''HARDCOVER'' = Some ''Hardcover''"
  "match_format ''a one-shot story'' = Some ''One-Shot''"
  "match_format ''special annual'' = Some ''Special''"
  "match_format ''collected edition'' = Some ''Collection''"
  by code_simp+

text \<open>
  Claim C9. When the classifier returns nothing, no part of the text is accepted by a
  marker of the vocabulary (letters compared without regard to case) with a word boundary
  on both sides. When it returns a label, the text has such a part \<open>m\<close>, no such part
  starts further left, and the label is "Collection" if the case-folded \<open>m\<close> contains
  "collect" and \<open>m\<close> title-cased otherwise. "Trade Paperback (2019 series)" gives
  "Trade Paperback", "Collects issues #1-6" gives "Collection", "ongoing" gives nothing;
  "annuals" and "biannual" give nothing (no word boundary), "trade paperback" gives
  "Trade Paperback" and "HARDCOVER" gives "Hardcover" (case and title-casing),
  "a one-shot story" gives "One-Shot", "special annual" gives "Special" (the leftmost
  match), and "collected edition" gives "Collection".
\<close>

theorem match_format_first_marker:
  "(case match_format s of
      None \<Rightarrow> \<not> (\<exists>pre m post. s = pre @ m @ post \<and> occurs_at word_list pre m post)
    | Some f \<Rightarrow>
        (\<exists>pre m post. s = pre @ m @ post \<and> occurs_at word_list pre m post
           \<and> \<not> (\<exists>pre' m' post'. s = pre' @ m' @ post' \<and> length pre' < length pre
                   \<and> occurs_at word_list pre' m' post')
           \<and> f = (if contains (casefold m) ''collect'' then ''Collection'' else title m)))
   \<and> match_format ''Trade Paperback (2019 series)'' = Some ''Trade Paperback''
   \<and> match_format ''Collects issues #1-6'' = Some ''Collection''
   \<and> match_format ''ongoing'' = None
   \<and> match_format ''annuals'' = None
   \<and> match_format ''biannual'' = None
   \<and> match_format ''trade paperback'' = Some ''Trade Paperback''
   \<and> match_format ''HARDCOVER'' = Some ''Hardcover''
   \<and> match_format ''a one-shot story'' = Some ''One-Shot''
   \<and> match_format ''special annual'' = Some ''Special''
   \<and> match_format ''collected edition'' = Some ''Collection''"
proof -
  have g: "case match_format s of
      None \<Rightarrow> \<not> (\<exists>pre m post. s = pre @ m @ post \<and> occurs_at word_list pre m post)
    | Some f \<Rightarrow>
        (\<exists>pre m post. s = pre @ m @ post \<and> occurs_at word_list pre m post
           \<and> \<not> (\<exists>pre' m' post'. s = pre' @ m' @ post' \<and> length pre' < length pre
                   \<and> occurs_at word_list pre' m' post')
           \<and> f = (if contains (casefold m) ''collect'' then ''Collection'' else title m))"
  proof (cases "re_search word_list s")
    case None
    then have "match_format s = None" by (simp add: match_format_def)
    moreover from None have "\<not> (\<exists>pre m post. s = pre @ m @ post \<and> occurs_at word_list pre m post)"
      unfolding re_search_None_iff .
    ultimately show ?thesis by simp
  next
    case (Some m)
    then have f: "match_format s =
        Some (if contains (casefold m) ''collect'' then ''Collection'' else title m)"
      by (simp add: match_format_def)
    from re_search_Some[OF Some] obtain pre post where
      "s = pre @ m @ post" "occurs_at word_list pre m post"
      "\<not> (\<exists>pre' m' post'. s = pre' @ m' @ post' \<and> length pre' < length pre
             \<and> occurs_at word_list pre' m' post')" by blast
    then have "\<exists>pre m' post. s = pre @ m' @ post \<and> occurs_at word_list pre m' post
           \<and> \<not> (\<exists>pre' m'' post'. s = pre' @ m'' @ post' \<and> length pre' < length pre
                   \<and> occurs_at word_list pre' m'' post')
           \<and> (if contains (casefold m) ''collect'' then ''Collection'' else title m)
               = (if contains (casefold m') ''collect'' then ''Collection'' else title m')"
      by blast
    with f show ?thesis by simp
  qed
  from g classifier_examples show ?thesis by (intro conjI)
qed

section \<open>Price and description: properties\<close>

lemma price_loop_last:
  "price_loop xf cur ps acc =
     (if filter (price_matches cur) ps = [] then acc
      else xf (last (filter (price_matches cur) ps)))"
  by (induction ps arbitrary: acc) auto

lemma md_price_map [simp]:
  "md_price (map_comic_issue_to_metadata ex cfg issue series) =
     map_price (xlate_float ex) (currency cfg) (gi_price issue)"
  by (simp add: map_comic_issue_to_metadata_def)

lemma md_description_map [simp]:
  "md_description (map_comic_issue_to_metadata ex cfg issue series) =
     Some (map_description cfg issue series)"
  by (simp add: map_comic_issue_to_metadata_def)

lemma split_price_example:
  "split '';'' ''12.99 USD; 9.99 EUR'' = [''12.99 USD'', '' 9.99 EUR'']"
  by code_simp

lemma price_matches_examples:
  "\<not> price_matches ''EUR'' ''12.99 USD''" "price_matches ''EUR'' '' 9.99 EUR''"
  "\<not> price_matches ''GBP'' ''12.99 USD''" "\<not> price_matches ''GBP'' '' 9.99 EUR''"
  by code_simp+

text \<open>
  Claim C3, amended. A missing or empty raw price gives no price. Otherwise the raw field
  is split on the semicolon and the price is what \<^verbatim>\<open>xlate_float\<close> makes of the last
  component that ends, case-insensitively, with the configured currency; with no such
  component the price is absent. "12.99 USD; 9.99 EUR" gives the component " 9.99 EUR" for
  the currency "EUR" and no price for "GBP".
\<close>

theorem price_is_last_matching_component:
  "md_price (map_comic_issue_to_metadata ex cfg issue series) =
     (case gi_price issue of
        None \<Rightarrow> None
      | Some raw \<Rightarrow>
          if raw = [] \<or> filter (price_matches (currency cfg)) (split '';'' raw) = [] then None
          else xlate_float ex (last (filter (price_matches (currency cfg)) (split '';'' raw))))
   \<and> md_price (map_comic_issue_to_metadata ex (cfg\<lparr>currency := ''EUR''\<rparr>)
         (issue\<lparr>gi_price := Some ''12.99 USD; 9.99 EUR''\<rparr>) series) = xlate_float ex '' 9.99 EUR''
   \<and> md_price (map_comic_issue_to_metadata ex (cfg\<lparr>currency := ''GBP''\<rparr>)
         (issue\<lparr>gi_price := Some ''12.99 USD; 9.99 EUR''\<rparr>) series) = None"
  by (simp add: map_price_def price_loop_last split_price_example price_matches_examples
           split: option.split)

text \<open>
  Claim C3 as stated fails: for the raw price "1 USD;2 USD" and the currency "USD" the code
  takes the second component, the first-match reading the first.
\<close>

theorem price_first_match_counterexample:
  "md_price (map_comic_issue_to_metadata sample_ext (default_config\<lparr>currency := ''USD''\<rparr>)
       (blank_issue\<lparr>gi_price := Some ''1 USD;2 USD''\<rparr>) blank_series) = Some ''2 USD''
   \<and> price_first_match (xlate_float sample_ext) ''USD'' ''1 USD;2 USD'' = Some ''1 USD''
   \<and> md_price (map_comic_issue_to_metadata sample_ext (default_config\<lparr>currency := ''USD''\<rparr>)
       (blank_issue\<lparr>gi_price := Some ''1 USD;2 USD''\<rparr>) blank_series)
       \<noteq> price_first_match (xlate_float sample_ext) ''USD'' ''1 USD;2 USD''"
proof -
  have s: "split '';'' ''1 USD;2 USD'' = [''1 USD'', ''2 USD'']" by code_simp
  have m: "price_matches ''USD'' ''1 USD''" "price_matches ''USD'' ''2 USD''" by code_simp+
  have a: "md_price (map_comic_issue_to_metadata sample_ext (default_config\<lparr>currency := ''USD''\<rparr>)
       (blank_issue\<lparr>gi_price := Some ''1 USD;2 USD''\<rparr>) blank_series) = Some ''2 USD''"
    by (simp add: map_price_def s m sample_ext_def default_config_def blank_issue_def)
  have b: "price_first_match (xlate_float sample_ext) ''USD'' ''1 USD;2 USD'' = Some ''1 USD''"
    by (simp add: price_first_match_def s m sample_ext_def)
  show ?thesis unfolding a b by simp
qed

lemma title_synopsis_blocks_zip:
  "length ts = length ss \<Longrightarrow>
   title_synopsis_blocks ts ss =
     concat (map (\<lambda>(t, s). t @ '': '' @ s @ crlf2)
              (filter (\<lambda>(t, s). t \<noteq> [] \<and> s \<noteq> []) (zip ts ss)))"
  by (induction ts ss rule: list_induct2) auto

text \<open>
  Claim C7, amended. The description is the notes prefix (series notes followed by issue
  notes when the combine-notes policy is set, else empty) followed by: when the numbers of
  story titles and synopses are equal, the blocks "title: synopsis CR LF CR LF" in list
  order for the positions where both the title and the synopsis are non-empty; when the
  numbers differ, the synopses joined with CR LF CR LF. With the policy off, the titles
  Intro, Epilogue and the synopses "A beginning.", "An end." give
  "Intro: A beginning. CRLF CRLF Epilogue: An end. CRLF CRLF".
\<close>

theorem description_blocks_or_joined:
  "md_description (map_comic_issue_to_metadata ex cfg issue series) =
     Some ((if combine_notes cfg
            then gs_notes series @ (case gi_issue_notes issue of None \<Rightarrow> [] | Some n \<Rightarrow> n)
            else []) @
           (if length (gi_story_titles issue) = length (gi_synopses issue)
            then concat (map (\<lambda>(t, s). t @ '': '' @ s @ crlf2)
                   (filter (\<lambda>(t, s). t \<noteq> [] \<and> s \<noteq> [])
                      (zip (gi_story_titles issue) (gi_synopses issue))))
            else join crlf2 (gi_synopses issue)))
   \<and> md_description (map_comic_issue_to_metadata ex (cfg\<lparr>combine_notes := False\<rparr>)
         (issue\<lparr>gi_story_titles := [''Intro'', ''Epilogue''],
                 gi_synopses := [''A beginning.'', ''An end.'']\<rparr>) series) =
       Some (''Intro: A beginning.'' @ crlf2 @ ''Epilogue: An end.'' @ crlf2)"
  by (simp add: map_description_def title_synopsis_blocks_zip)

text \<open>
  Claim C7 as stated fails: one empty title with the synopsis "S" has equal counts, the
  code skips the block, and the description is empty, where the claim has ": S CRLF CRLF".
\<close>

theorem description_counterexample:
  "md_description (map_comic_issue_to_metadata sample_ext default_config
       (blank_issue\<lparr>gi_story_titles := [''''], gi_synopses := [''S'']\<rparr>) blank_series) = Some []
   \<and> description_as_specified [''''] [''S''] = '': S'' @ crlf2
   \<and> md_description (map_comic_issue_to_metadata sample_ext default_config
       (blank_issue\<lparr>gi_story_titles := [''''], gi_synopses := [''S'']\<rparr>) blank_series)
       \<noteq> Some (description_as_specified [''''] [''S''])"
  by (simp add: map_description_def default_config_def blank_issue_def description_as_specified_def)

section \<open>Evaluating the operations on the sample database\<close>

lemmas op_defs = fetch_comic_data_def check_db_filename_not_empty_def fetch_issue_data_def
  db_opens_def log_event_def connect_def path_is_file_def sql_issue_id_lookup_def fetch_issue_data_by_issue_id_def
  fetch_issue_by_issue_id_def query_issue_by_issue_id_def check_create_index_def
  sql_issue_by_id_def join_stories_def full_row_def format_gcd_issue_def find_issue_credits_def
  fetch_series_data_def query_series_data_def publisher_series_def fetch_series_def
  fetch_issues_in_series_def sql_issues_in_series_def group_by_number_def
  group_concat_def non_null_def nonempty_def story_col_def split_truthy_def Let_def

lemmas sample_defs = sample_env_def default_config_def initial_state_def sample_issue_def
  sample_series_def sample_story_def no_file_env_def sample_ext_def

lemma connect_fields:
  "trace (connect cfg e s) = trace s @ [DB_connect]"
  "cache_series (connect cfg e s) = cache_series s"
  "cache_issues (connect cfg e s) = cache_issues s"
  "has_issue_id_type_id_index (connect cfg e s) = has_issue_id_type_id_index s"
  "has_fts5 (connect cfg e s) = has_fts5 s"
  "has_fts5_checked (connect cfg e s) = has_fts5_checked s"
  "db_index (connect cfg e s) = db_index s"
  "db_fts_table (connect cfg e s) = db_fts_table s"
  "read_pending (connect cfg e s) = read_pending s"
  by (simp_all add: connect_def log_event_def)

lemma connect_existing_file:
  "is_file e (db_file cfg) \<Longrightarrow> connect cfg e s = log_event DB_connect s"
  by (simp add: connect_def path_is_file_def log_event_def)

section \<open>The database path check\<close>

lemma guarded_operations_stop_before_connecting:
  assumes "check_db_filename_not_empty cfg e s = Some err"
  shows "search_for_series cfg e series_name callback refresh_cache literal thresh s = (Inl err, s)"
    and "fetch_comic_data ex cfg e issue_id series_id issue_number s = (Inl err, s)"
    and "fetch_issues_by_series_issue_num_and_year ex cfg e ids issue_number year s = (Inl err, s)"
  using assms
  by (simp_all add: search_for_series_def fetch_comic_data_def
        fetch_issues_by_series_issue_num_and_year_def check_create_index_def)

lemma check_fails_without_file:
  "\<not> path_is_file e s (db_file cfg) \<Longrightarrow>
   check_db_filename_not_empty cfg e s = Some (if db_file cfg = [] then Db_path_empty else Db_path_invalid)"
  by (simp add: check_db_filename_not_empty_def)

lemma fetch_series_data_without_check:
  "cache_series s series_id = None \<Longrightarrow> \<not> is_file e (db_file cfg) \<Longrightarrow>
   fetch_series_data cfg e series_id s = (Inl Db_error, connect cfg e s)"
  by (simp add: fetch_series_data_def query_series_data_def db_opens_def Let_def)

text \<open>
  Claim C4 fails for \<^verbatim>\<open>fetch_series\<close> and \<^verbatim>\<open>fetch_issues_in_series\<close>, which reach
  \<^verbatim>\<open>_fetch_series_data\<close> before any path check. With the database file missing and an
  empty cache both connect to the database and fail with the database error (code 0), not
  the configuration error; with a complete cached entry \<^verbatim>\<open>fetch_series\<close> returns the
  cached series and raises nothing. The connection leaves an empty file at the path, so
  that the path check of a later call passes.
\<close>

theorem fetch_series_skips_path_check:
  "check_db_filename_not_empty default_config no_file_env initial_state = Some Db_path_invalid
   \<and> fetch_series default_config no_file_env 10 initial_state
       = (Inl Db_error, initial_state\<lparr>trace := [DB_connect], created_files := {''gcd.db''}\<rparr>)
   \<and> fetch_issues_in_series sample_ext default_config no_file_env 10 initial_state
       = (Inl Db_error, initial_state\<lparr>trace := [DB_connect], created_files := {''gcd.db''}\<rparr>)
   \<and> fst (fetch_series default_config no_file_env 10
            (initial_state\<lparr>cache_series := [10 \<mapsto> (blank_series, True)]\<rparr>))
       = Inr (format_search_result blank_series)
   \<and> check_db_filename_not_empty default_config no_file_env
         (snd (fetch_series default_config no_file_env 10 initial_state)) = None"
  by (simp add: op_defs sample_defs)

section \<open>Lookups that find nothing\<close>

lemma fetch_issue_data_no_row:
  "is_file e (db_file cfg) \<Longrightarrow>
   sql_issue_id_lookup (db e) (nn_is_issue_one cfg \<and> issue_number = ''1'') series_id issue_number = [] \<Longrightarrow>
   fetch_issue_data ex cfg e series_id issue_number s = (Inl Type_error, connect cfg e s)"
  by (simp add: fetch_issue_data_def db_opens_def Let_def)

lemma fetch_issues_in_series_placeholder:
  assumes "fetch_series_data cfg e series_id s = (Inr series, s1)"
    and "db_file cfg \<noteq> []" and "is_file e (db_file cfg)"
    and "has_issue_id_type_id_index s1 \<or> db_index s1 \<or> \<not> read_pending s1"
    and "sql_issues_in_series e series_id = []"
  shows "fst (fetch_issues_in_series ex cfg e series_id s) = Inr [empty_md]"
  using assms
  by (auto simp: fetch_issues_in_series_def check_create_index_def check_db_filename_not_empty_def
        db_opens_def path_is_file_def connect_def log_event_def Let_def)

text \<open>
  Claim C5 fails for \<^verbatim>\<open>fetch_comic_data\<close>: for series 10 and issue number "5", which match
  no issue, \<^verbatim>\<open>_fetch_issue_data\<close> subscripts the None that \<^verbatim>\<open>fetchone\<close> returned and
  the call ends in a TypeError instead of the empty record. (For the same series
  \<^verbatim>\<open>fetch_issues_in_series\<close> does return the single empty record.)
\<close>

theorem fetch_comic_data_no_match_raises:
  "fetch_comic_data sample_ext default_config (sample_env [] []) None (Some 10) ''5'' initial_state
     = (Inl Type_error, initial_state\<lparr>trace := [DB_connect]\<rparr>)
   \<and> fst (fetch_issues_in_series sample_ext default_config (sample_env [] []) 10 initial_state)
     = Inr [empty_md]"
  by (simp add: op_defs sample_defs)

section \<open>Series of the selected rows\<close>

lemma issue_id_lookup_without_alias:
  "i \<in> set (sql_issue_id_lookup d False series_id issue_number) \<Longrightarrow> is_series_id i = series_id"
  by (simp add: sql_issue_id_lookup_def)

text \<open>
  Claim C2 fails on the single-issue path. With the alias policy on and the number "1",
  the WHERE clause of \<^verbatim>\<open>_fetch_issue_data\<close> reads
  \<^verbatim>\<open>series_id=? AND number=? OR number='[nn]'\<close>: for series 10 it selects the unnumbered
  issue 7 of series 99, and \<^verbatim>\<open>fetch_comic_data\<close> returns that issue.
\<close>

theorem fetch_comic_data_alias_leaves_series:
  "map is_series_id (sql_issue_id_lookup (db (sample_env [sample_issue 7 99 ''[nn]''] [])) True 10 ''1'') = [99]
   \<and> map_sum id (\<lambda>md. (md_issue_id md, md_series_id md))
        (fst (fetch_comic_data sample_ext default_config (sample_env [sample_issue 7 99 ''[nn]''] [])
                None (Some 10) ''1'' initial_state))
       = Inr (Some ''7'', Some ''99'')"
  by (simp add: op_defs sample_defs map_comic_issue_to_metadata_def str_int_def str_nat.simps
        digit_chars_def)

text \<open>
  When the query of \<^verbatim>\<open>_fetch_issue_data\<close> selects more than one row and the index on
  the story table has yet to be created, the pending rows hold the read lock and the call
  ends in the database error.
\<close>

lemma fetch_issue_data_pending_rows:
  "fst (fetch_comic_data sample_ext default_config
          (sample_env [sample_issue 7 99 ''[nn]'', sample_issue 8 10 ''1''] [])
          None (Some 10) ''1'' initial_state) = Inl Db_error"
  by (simp add: op_defs sample_defs)

section \<open>Parameters that the search ignores\<close>

text \<open>
  Claim C10. On the same settings, world and state, two searches for the same name with
  the same literal flag return the same result and leave the same state, whatever their
  callback, refresh_cache and series_match_thresh arguments are.
\<close>

theorem search_ignores_callback_refresh_thresh:
  "search_for_series cfg e series_name callback1 refresh1 literal thresh1 s
     = search_for_series cfg e series_name callback2 refresh2 literal thresh2 s"
  by (simp add: search_for_series_def)

section \<open>The caches\<close>

lemma query_series_data_connects:
  "take (length (trace s)) (trace (snd (query_series_data cfg e series_id s))) = trace s
   \<and> DB_connect \<in> set (drop (length (trace s)) (trace (snd (query_series_data cfg e series_id s))))"
  by (auto simp: query_series_data_def find_series_image_def find_issue_images_def log_event_def connect_fields
        Let_def split: list.splits option.splits sum.splits prod.splits)

lemma query_series_data_stores:
  assumes "query_series_data cfg e series_id s = (Inr r, s')"
  shows "cache_series s' series_id = Some (r, True) \<and> gs_id r = series_id
         \<and> gs_cover_downloaded r = download_gui_covers cfg"
proof -
  from assms obtain row p rest where
    rows: "publisher_series (db e) (\<lambda>r. sr_id r = series_id) = (row, p) # rest"
    by (auto simp: query_series_data_def Let_def split: if_splits list.splits sum.splits prod.splits)
  then have "(row, p) \<in> set (publisher_series (db e) (\<lambda>r. sr_id r = series_id))" by simp
  then have "sr_id row = series_id" by (auto simp: publisher_series_def)
  with assms rows show ?thesis
    by (auto simp: query_series_data_def Let_def split: if_splits sum.splits prod.splits)
qed

lemma check_create_index_trace:
  "check_create_index cfg e s = (r, s1) \<Longrightarrow> \<exists>evs. trace s1 = trace s @ evs"
  by (auto simp: check_create_index_def log_event_def connect_fields Let_def split: option.splits if_splits)

lemma format_gcd_issue_id:
  "format_gcd_issue r c = Inr issue \<Longrightarrow> gi_id issue = rw_id r \<and> gi_series_id issue = rw_series_id r"
  by (auto simp: format_gcd_issue_def Let_def split: if_splits option.splits)

lemma join_stories_fst: "j \<in> set (join_stories d i) \<Longrightarrow> fst j = i"
  by (auto simp: join_stories_def split: list.splits)

lemma sql_issue_by_id_id:
  assumes "sql_issue_by_id e issue_id = Some r" and "pick_ok e"
  shows "rw_id r = issue_id"
proof -
  let ?g = "concat (map (join_stories (db e)) (filter (\<lambda>i. is_id i = issue_id) (issues (db e))))"
  from assms(1) have "?g \<noteq> [] \<and> r = full_row e ?g"
    by (cases ?g) (simp_all add: sql_issue_by_id_def)
  then have ne: "?g \<noteq> []" and r: "r = full_row e ?g" by simp_all
  from ne assms(2) have "pick e ?g \<in> set ?g" unfolding pick_ok_def by blast
  then obtain i where i: "is_id i = issue_id" "pick e ?g \<in> set (join_stories (db e) i)"
    by auto
  from i(2) have "fst (pick e ?g) = i" by (rule join_stories_fst)
  with i(1) r show ?thesis by (simp add: full_row_def Let_def)
qed

lemma query_issue_by_issue_id_stores:
  assumes "query_issue_by_issue_id cfg e issue_id s = (Inr r, s')"
  shows "cache_issues s' (gi_id r) = Some (r, True)
         \<and> gi_covers_downloaded r = download_gui_covers cfg
         \<and> take (length (trace s)) (trace s') = trace s
             \<and> DB_connect \<in> set (drop (length (trace s)) (trace s'))
         \<and> (\<exists>row. sql_issue_by_id e issue_id = Some row \<and> gi_id r = rw_id row)"
proof -
  obtain u s1 where c: "check_create_index cfg e s = (Inr u, s1)"
    using assms by (auto simp: query_issue_by_issue_id_def split: prod.splits sum.splits)
  then obtain evs where t1: "trace s1 = trace s @ evs" using check_create_index_trace by blast
  from assms c obtain row where row: "sql_issue_by_id e issue_id = Some row"
    by (auto simp: query_issue_by_issue_id_def Let_def split: if_splits option.splits)
  from assms c row obtain ir where ir: "format_gcd_issue row True = Inr ir"
    by (auto simp: query_issue_by_issue_id_def Let_def split: if_splits sum.splits)
  then have id: "gi_id ir = rw_id row" using format_gcd_issue_id by blast
  from assms c row ir t1 id show ?thesis
    by (auto simp: query_issue_by_issue_id_def find_issue_credits_def find_issue_images_def
          log_event_def connect_fields Let_def
          split: if_splits sum.splits prod.splits option.splits list.splits)
qed

text \<open>
  Claim C6. With a complete cached entry for the id (each of the two caches on its own), \<^verbatim>\<open>_fetch_series_data\<close> and
  \<^verbatim>\<open>_fetch_issue_by_issue_id\<close> return the cached payload and leave the state as it is
  (nothing is added to the trace, so the database is not contacted) unless the
  cover-download policy is on and the payload's cover flag is false; in that one case they
  run the resolution that a cache miss runs. That resolution contacts the database, and
  when it succeeds it stores its result as the complete entry of the id, with the cover flag
  equal to the policy.
\<close>

theorem complete_cache_entry_policy:
  "(cache_series s series_id = Some (cs, True) \<longrightarrow>
      fetch_series_data cfg e series_id s =
           (if download_gui_covers cfg \<and> \<not> gs_cover_downloaded cs
            then query_series_data cfg e series_id s else (Inr cs, s)))
       \<and> (cache_issues s issue_id = Some (ci, True) \<longrightarrow>
            fetch_issue_by_issue_id cfg e issue_id s =
              (if download_gui_covers cfg \<and> \<not> gi_covers_downloaded ci
               then query_issue_by_issue_id cfg e issue_id s else (Inr ci, s)))
       \<and> fetch_series_data cfg e series_id (s\<lparr>cache_series := (cache_series s)(series_id := None)\<rparr>) =
           query_series_data cfg e series_id (s\<lparr>cache_series := (cache_series s)(series_id := None)\<rparr>)
       \<and> fetch_issue_by_issue_id cfg e issue_id (s\<lparr>cache_issues := (cache_issues s)(issue_id := None)\<rparr>) =
           query_issue_by_issue_id cfg e issue_id (s\<lparr>cache_issues := (cache_issues s)(issue_id := None)\<rparr>)
       \<and> take (length (trace s)) (trace (snd (query_series_data cfg e series_id s))) = trace s
       \<and> DB_connect \<in> set (drop (length (trace s)) (trace (snd (query_series_data cfg e series_id s))))
       \<and> (\<forall>r s'. query_series_data cfg e series_id s = (Inr r, s') \<longrightarrow>
             cache_series s' series_id = Some (r, True)
             \<and> gs_cover_downloaded r = download_gui_covers cfg)
       \<and> (\<forall>r s'. query_issue_by_issue_id cfg e issue_id s = (Inr r, s') \<longrightarrow>
             cache_issues s' (gi_id r) = Some (r, True)
             \<and> gi_covers_downloaded r = download_gui_covers cfg
             \<and> (pick_ok e \<longrightarrow> gi_id r = issue_id)
             \<and> take (length (trace s)) (trace s') = trace s
             \<and> DB_connect \<in> set (drop (length (trace s)) (trace s')))"
proof -
  have 1: "cache_series s series_id = Some (cs, True) \<longrightarrow>
      fetch_series_data cfg e series_id s =
           (if download_gui_covers cfg \<and> \<not> gs_cover_downloaded cs
            then query_series_data cfg e series_id s else (Inr cs, s))"
    by (simp add: fetch_series_data_def)
  have 2: "cache_issues s issue_id = Some (ci, True) \<longrightarrow>
      fetch_issue_by_issue_id cfg e issue_id s =
           (if download_gui_covers cfg \<and> \<not> gi_covers_downloaded ci
            then query_issue_by_issue_id cfg e issue_id s else (Inr ci, s))"
    by (simp add: fetch_issue_by_issue_id_def)
  have 3: "fetch_series_data cfg e series_id (s\<lparr>cache_series := (cache_series s)(series_id := None)\<rparr>) =
           query_series_data cfg e series_id (s\<lparr>cache_series := (cache_series s)(series_id := None)\<rparr>)"
    by (simp add: fetch_series_data_def)
  have 4: "fetch_issue_by_issue_id cfg e issue_id (s\<lparr>cache_issues := (cache_issues s)(issue_id := None)\<rparr>) =
           query_issue_by_issue_id cfg e issue_id (s\<lparr>cache_issues := (cache_issues s)(issue_id := None)\<rparr>)"
    by (simp add: fetch_issue_by_issue_id_def)
  have 5: "take (length (trace s)) (trace (snd (query_series_data cfg e series_id s))) = trace s
   \<and> DB_connect \<in> set (drop (length (trace s)) (trace (snd (query_series_data cfg e series_id s))))"
    by (rule query_series_data_connects)
  have 6: "\<forall>r s'. query_series_data cfg e series_id s = (Inr r, s') \<longrightarrow>
             cache_series s' series_id = Some (r, True)
             \<and> gs_cover_downloaded r = download_gui_covers cfg"
    using query_series_data_stores by blast
  have 7: "\<forall>r s'. query_issue_by_issue_id cfg e issue_id s = (Inr r, s') \<longrightarrow>
             cache_issues s' (gi_id r) = Some (r, True)
             \<and> gi_covers_downloaded r = download_gui_covers cfg
             \<and> (pick_ok e \<longrightarrow> gi_id r = issue_id)
             \<and> take (length (trace s)) (trace s') = trace s
             \<and> DB_connect \<in> set (drop (length (trace s)) (trace s'))"
  proof (intro allI impI)
    fix r s' assume q: "query_issue_by_issue_id cfg e issue_id s = (Inr r, s')"
    from query_issue_by_issue_id_stores[OF q] sql_issue_by_id_id[of e issue_id]
    show "cache_issues s' (gi_id r) = Some (r, True)
             \<and> gi_covers_downloaded r = download_gui_covers cfg
             \<and> (pick_ok e \<longrightarrow> gi_id r = issue_id)
             \<and> take (length (trace s)) (trace s') = trace s
             \<and> DB_connect \<in> set (drop (length (trace s)) (trace s'))"
      by auto
  qed
  from 1 2 3 4 5 6 7 show ?thesis by (intro conjI) simp_all
qed


lemma pick_ok_sample: "pick_ok (sample_env iss sts)"
proof -
  have "hd g \<in> set g" if "g \<noteq> []" for g :: "joined list"
    using that by simp
  then show ?thesis by (simp add: pick_ok_def sample_env_def)
qed

text \<open>
  An instance of the cache policy: the state \<open>cached_state\<close> holds complete entries
  without covers for series 10 and issue 7. With the cover policy off both are returned as
  they are and the state is unchanged; with the policy on both calls run the resolution of
  a miss.
\<close>

theorem complete_cache_entry_policy_witness:
  "cache_series cached_state 10 = Some (blank_series\<lparr>gs_id := 10\<rparr>, True)
   \<and> cache_issues cached_state 7 = Some (blank_issue\<lparr>gi_id := 7, gi_series_id := 10\<rparr>, True)
   \<and> fetch_series_data default_config (sample_env [sample_issue 7 10 ''1''] []) 10 cached_state
        = (Inr (blank_series\<lparr>gs_id := 10\<rparr>), cached_state)
   \<and> fetch_issue_by_issue_id default_config (sample_env [sample_issue 7 10 ''1''] []) 7 cached_state
        = (Inr (blank_issue\<lparr>gi_id := 7, gi_series_id := 10\<rparr>), cached_state)
   \<and> fetch_series_data (default_config\<lparr>download_gui_covers := True\<rparr>)
          (sample_env [sample_issue 7 10 ''1''] []) 10 cached_state
        = query_series_data (default_config\<lparr>download_gui_covers := True\<rparr>)
            (sample_env [sample_issue 7 10 ''1''] []) 10 cached_state
   \<and> fetch_issue_by_issue_id (default_config\<lparr>download_gui_covers := True\<rparr>)
          (sample_env [sample_issue 7 10 ''1''] []) 7 cached_state
        = query_issue_by_issue_id (default_config\<lparr>download_gui_covers := True\<rparr>)
            (sample_env [sample_issue 7 10 ''1''] []) 7 cached_state
   \<and> pick_ok (sample_env [sample_issue 7 10 ''1''] [])"
proof -
  have a: "cache_series cached_state 10 = Some (blank_series\<lparr>gs_id := 10\<rparr>, True)"
    by (simp add: cached_state_def initial_state_def)
  have b: "cache_issues cached_state 7 = Some (blank_issue\<lparr>gi_id := 7, gi_series_id := 10\<rparr>, True)"
    by (simp add: cached_state_def initial_state_def)
  note off = complete_cache_entry_policy[where s = cached_state and series_id = 10
      and cs = "blank_series\<lparr>gs_id := 10\<rparr>" and issue_id = 7
      and ci = "blank_issue\<lparr>gi_id := 7, gi_series_id := 10\<rparr>"
      and cfg = default_config and e = "sample_env [sample_issue 7 10 ''1''] []"]
  note on = complete_cache_entry_policy[where s = cached_state and series_id = 10
      and cs = "blank_series\<lparr>gs_id := 10\<rparr>" and issue_id = 7
      and ci = "blank_issue\<lparr>gi_id := 7, gi_series_id := 10\<rparr>"
      and cfg = "default_config\<lparr>download_gui_covers := True\<rparr>"
      and e = "sample_env [sample_issue 7 10 ''1''] []"]
  have c: "\<not> download_gui_covers default_config"
    "download_gui_covers (default_config\<lparr>download_gui_covers := True\<rparr>)"
    "\<not> gs_cover_downloaded (blank_series\<lparr>gs_id := 10\<rparr>)"
    "\<not> gi_covers_downloaded (blank_issue\<lparr>gi_id := 7, gi_series_id := 10\<rparr>)"
    by (simp_all add: default_config_def blank_series_def blank_issue_def)
  from off a c have 1: "fetch_series_data default_config (sample_env [sample_issue 7 10 ''1''] []) 10 cached_state
        = (Inr (blank_series\<lparr>gs_id := 10\<rparr>), cached_state)" by simp
  from off b c have 2: "fetch_issue_by_issue_id default_config (sample_env [sample_issue 7 10 ''1''] []) 7 cached_state
        = (Inr (blank_issue\<lparr>gi_id := 7, gi_series_id := 10\<rparr>), cached_state)" by simp
  from on a c have 3: "fetch_series_data (default_config\<lparr>download_gui_covers := True\<rparr>)
          (sample_env [sample_issue 7 10 ''1''] []) 10 cached_state
        = query_series_data (default_config\<lparr>download_gui_covers := True\<rparr>)
            (sample_env [sample_issue 7 10 ''1''] []) 10 cached_state" by simp
  from on b c have 4: "fetch_issue_by_issue_id (default_config\<lparr>download_gui_covers := True\<rparr>)
          (sample_env [sample_issue 7 10 ''1''] []) 7 cached_state
        = query_issue_by_issue_id (default_config\<lparr>download_gui_covers := True\<rparr>)
            (sample_env [sample_issue 7 10 ''1''] []) 7 cached_state" by simp
  from a b 1 2 3 4 pick_ok_sample show ?thesis by blast
qed

section \<open>Joining and splitting\<close>

lemma split_not_Nil: "split sep s \<noteq> []"
  by (cases s) (auto simp: split.simps split: list.splits)

lemma split_without_sep:
  "sep \<noteq> [] \<Longrightarrow> hd sep \<notin> set x \<Longrightarrow> split sep x = [x]"
proof (induction x)
  case Nil
  then show ?case by (simp add: split.simps)
next
  case (Cons c x)
  from Cons.prems have "\<not> startswith (c # x) sep"
    by (cases sep) (auto simp: startswith_def)
  with Cons show ?case by (simp add: split.simps)
qed

lemma split_append_sep:
  "sep \<noteq> [] \<Longrightarrow> hd sep \<notin> set x \<Longrightarrow> split sep (x @ sep @ rest) = x # split sep rest"
proof (induction x)
  case Nil
  then obtain a sep' where sep: "sep = a # sep'" by (cases sep) auto
  have "startswith (sep @ rest) sep" by (simp add: startswith_def)
  then have "split sep (a # sep' @ rest) = [] # split sep (drop (length sep) (a # sep' @ rest))"
    using sep by (simp add: split.simps)
  with sep show ?case by simp
next
  case (Cons c x)
  from Cons.prems have "\<not> startswith (c # x @ sep @ rest) sep"
    by (cases sep) (auto simp: startswith_def)
  with Cons show ?case by (simp add: split.simps)
qed

lemma split_join:
  "sep \<noteq> [] \<Longrightarrow> xs \<noteq> [] \<Longrightarrow> \<forall>x \<in> set xs. hd sep \<notin> set x \<Longrightarrow> split sep (join sep xs) = xs"
proof (induction sep xs rule: join.induct)
  case (1 sep)
  then show ?case by simp
next
  case (2 sep x)
  then show ?case by (simp add: split_without_sep)
next
  case (3 sep x y ys)
  then show ?case by (simp add: split_append_sep)
qed

lemma split_char_append:
  "split [c] (x @ c # rest) = split [c] x @ split [c] rest"
proof (induction x)
  case Nil
  show ?case by (simp add: split.simps startswith_def)
next
  case (Cons a x)
  show ?case
  proof (cases "a = c")
    case True
    with Cons show ?thesis by (simp add: split.simps startswith_def)
  next
    case False
    obtain w ws where w: "split [c] x = w # ws" using split_not_Nil by (cases "split [c] x") auto
    with False Cons show ?thesis by (simp add: split.simps startswith_def)
  qed
qed

lemma split_char_join:
  "xs \<noteq> [] \<Longrightarrow> split [c] (join [c] xs) = concat (map (split [c]) xs)"
proof (induction "[c]" xs rule: join.induct)
  case 1
  then show ?case by simp
next
  case (2 x)
  then show ?case by simp
next
  case (3 x y ys)
  then show ?case by (simp add: split_char_append)
qed

lemma join_not_Nil: "xs \<noteq> [] \<Longrightarrow> hd xs \<noteq> [] \<Longrightarrow> join sep xs \<noteq> []"
  by (induction sep xs rule: join.induct) auto

lemma non_null_nonempty: "x \<in> set (non_null (map (\<lambda>j. nonempty (f j)) g)) \<Longrightarrow> x \<noteq> []"
  by (induction g) (auto simp: non_null_def nonempty_def split: option.splits if_splits)

lemma story_values_nonempty: "x \<in> set (story_values f g) \<Longrightarrow> x \<noteq> []"
  unfolding story_values_def by (rule non_null_nonempty)

lemma str_nat_digits: "set (str_nat n) \<subseteq> set digit_chars \<and> str_nat n \<noteq> []"
proof (induction n rule: str_nat.induct)
  case (1 n)
  have len: "length digit_chars = 10" by (simp add: digit_chars_def)
  show ?case
  proof (cases "n < 10")
    case True
    then have "digit_chars ! n \<in> set digit_chars" using len by simp
    with True show ?thesis by (subst (1 2) str_nat.simps) simp
  next
    case False
    have "n mod 10 < length digit_chars" using len by simp
    then have "digit_chars ! (n mod 10) \<in> set digit_chars" by (rule nth_mem)
    with False 1 show ?thesis by (subst (1 2) str_nat.simps) simp
  qed
qed

lemma str_int_no_newline: "CHR 0x0A \<notin> set (str_int i) \<and> str_int i \<noteq> []"
proof -
  have "CHR 0x0A \<notin> set digit_chars" by (simp add: digit_chars_def)
  then have "CHR 0x0A \<notin> set (str_nat n)" for n using str_nat_digits by blast
  then show ?thesis using str_nat_digits by (simp add: str_int_def)
qed

lemma story_id_values_clean:
  "x \<in> set (story_id_values g) \<Longrightarrow> CHR 0x0A \<notin> set x \<and> x \<noteq> []"
  by (induction g) (auto simp: story_id_values_def non_null_def str_int_no_newline split: option.splits)


lemma hd_newline: "hd newline = CHR 0x0A" "hd (newline @ newline) = CHR 0x0A"
  "newline \<noteq> []" "newline @ newline \<noteq> []"
  by (simp_all add: newline_def)

lemma titles_round_trip:
  assumes "\<forall>t \<in> set vs. CHR 0x0A \<notin> set t"
  shows "(case (if vs = [] then None else Some (join newline vs)) of
            None \<Rightarrow> [] | Some t \<Rightarrow> split newline t) = vs"
    and "(case (if vs = [] then None else Some (join (newline @ newline) vs)) of
            None \<Rightarrow> [] | Some t \<Rightarrow> split (newline @ newline) t) = vs"
  using assms by (simp_all add: split_join hd_newline)

lemma split_truthy_join:
  assumes "\<forall>t \<in> set vs. CHR 0x0A \<notin> set t \<and> t \<noteq> []"
  shows "split_truthy newline (if vs = [] then None else Some (join newline vs)) = vs"
proof (cases "vs = []")
  case True
  then show ?thesis by (simp add: split_truthy_def)
next
  case False
  then have "hd vs \<in> set vs" by simp
  with assms have "hd vs \<noteq> []" by blast
  with False have "join newline vs \<noteq> []" by (rule join_not_Nil)
  with False assms show ?thesis by (simp add: split_truthy_def split_join hd_newline)
qed

lemma split_truthy_semicolon:
  assumes "\<forall>t \<in> set vs. t \<noteq> []"
  shows "split_truthy '';'' (if vs = [] then None else Some (join '';'' vs))
           = concat (map (split '';'') vs)"
proof (cases "vs = []")
  case True
  then show ?thesis by (simp add: split_truthy_def)
next
  case False
  then have "hd vs \<in> set vs" by simp
  with assms have "hd vs \<noteq> []" by blast
  with False have "join '';'' vs \<noteq> []" by (rule join_not_Nil)
  with False show ?thesis by (simp add: split_truthy_def split_char_join)
qed

lemma titles_flattened:
  "(case (if vs = [] then None else Some (join newline vs)) of
      None \<Rightarrow> [] | Some t \<Rightarrow> split newline t) = concat (map (split newline) vs)"
  by (simp add: newline_def split_char_join)

lemma sample_strings:
  "split newline ''A'' = [''A'']" "split '';'' ''x;y'' = [''x'', ''y'']"
  "split newline (''1'' @ newline @ ''2'' @ newline @ ''3'') = [''1'', ''2'', ''3'']"
  "capitalize (strip ''x'') = ''X''" "capitalize (strip ''y'') = ''Y''"
  "py_int ''1'' = Some 1" "py_int ''2'' = Some 2" "py_int ''3'' = Some 3"
  "str_int 1 = ''1''" "str_int 2 = ''2''" "str_int 3 = ''3''" "str_int 7 = ''7''"
  by code_simp+

lemma sample_genres:
  "split '';'' (''science FICTION; humor'' @ '';'' @ '' western '')
     = [''science FICTION'', '' humor'', '' western '']"
  "capitalize (strip ''science FICTION'') = ''Science fiction''"
  "capitalize (strip '' humor'') = ''Humor''"
  "capitalize (strip '' western '') = ''Western''"
  "split newline (''A'' @ newline @ ''B'') = [''A'', ''B'']"
  "split newline (''1'' @ newline @ ''2'') = [''1'', ''2'']"
  by code_simp+

lemma sample_synopsis:
  "split (newline @ newline) (''p'' @ newline @ newline @ ''q'') = [''p'', ''q'']"
  "split newline ''A'' = [''A'']" "split '';'' ''x'' = [''x'']" "split newline ''1'' = [''1'']"
  by code_simp+

text \<open>
  Claim C8, amended. The query by issue id concatenates, over the stories of the issue in
  row order, the non-empty titles and the story ids with a newline, the non-empty genres
  with a semicolon and the non-empty synopses with a double newline (NULL when there is
  none); \<^verbatim>\<open>_format_gcd_issue\<close> splits on the same separators. So the assembled story ids
  are the ids of the stories; the assembled genres are the semicolon-separated parts of the
  non-empty genres, each stripped and capitalized, in order; the assembled titles are the
  newline-separated parts of the non-empty titles, which are the titles themselves when
  none contains a newline; and the assembled synopses are the non-empty synopses when none
  contains a newline. For three stories with the titles A, empty, empty and the genres x,
  y, empty the assembled titles are [A] and the genres [X, Y]; the genres
  "science FICTION; humor" and " western " of two stories are assembled to
  [Science fiction, Humor, Western].
\<close>

theorem grouped_concat_round_trip:
  "rw_story_titles (full_row e g) =
           (if story_values st_title g = [] then None
            else Some (join newline (story_values st_title g)))
       \<and> rw_synopses (full_row e g) =
           (if story_values st_synopsis g = [] then None
            else Some (join (newline @ newline) (story_values st_synopsis g)))
       \<and> map_option fc_genres (rw_full (full_row e g)) =
           Some (if story_values st_genre g = [] then None
                 else Some (join '';'' (story_values st_genre g)))
       \<and> map_option fc_story_ids (rw_full (full_row e g)) =
           Some (if story_id_values g = [] then None
                 else Some (join newline (story_id_values g)))
       \<and> (\<exists>issue. format_gcd_issue (full_row e g) True = Inr issue
             \<and> gi_story_ids issue = story_id_values g
             \<and> gi_genres issue =
                 map (\<lambda>genre. capitalize (strip genre))
                   (concat (map (split '';'') (story_values st_genre g)))
             \<and> gi_story_titles issue = concat (map (split newline) (story_values st_title g))
             \<and> ((\<forall>t \<in> set (story_values st_title g). CHR 0x0A \<notin> set t) \<longrightarrow>
                  gi_story_titles issue = story_values st_title g)
             \<and> ((\<forall>t \<in> set (story_values st_synopsis g). CHR 0x0A \<notin> set t) \<longrightarrow>
                  gi_synopses issue = story_values st_synopsis g))
       \<and> map_sum id (\<lambda>i. (gi_story_titles i, gi_genres i, gi_story_ids i))
           (fst (fetch_issue_by_issue_id default_config
                   (sample_env [sample_issue 7 10 ''1'']
                      [sample_story 1 7 ''A'' ''x'', sample_story 2 7 [] ''y'', sample_story 3 7 [] []])
                   7 initial_state))
           = Inr ([''A''], [''X'', ''Y''], [''1'', ''2'', ''3''])
       \<and> map_sum id (\<lambda>i. (gi_story_titles i, gi_genres i, gi_story_ids i))
           (fst (fetch_issue_by_issue_id default_config
                   (sample_env [sample_issue 7 10 ''1'']
                      [sample_story 1 7 ''A'' ''science FICTION; humor'',
                       sample_story 2 7 ''B'' '' western ''])
                   7 initial_state))
           = Inr ([''A'', ''B''], [''Science fiction'', ''Humor'', ''Western''], [''1'', ''2''])"
proof -
  have cols: "rw_story_titles (full_row e g) =
           (if story_values st_title g = [] then None
            else Some (join newline (story_values st_title g)))"
    "rw_synopses (full_row e g) =
           (if story_values st_synopsis g = [] then None
            else Some (join (newline @ newline) (story_values st_synopsis g)))"
    "rw_full (full_row e g) \<noteq> None"
    "fc_genres (the (rw_full (full_row e g))) =
           (if story_values st_genre g = [] then None
                 else Some (join '';'' (story_values st_genre g)))"
    "fc_story_ids (the (rw_full (full_row e g))) =
           (if story_id_values g = [] then None
                 else Some (join newline (story_id_values g)))"
    by (simp_all add: full_row_def Let_def group_concat_def story_values_def story_id_values_def)
  have ids: "\<forall>t \<in> set (story_id_values g). CHR 0x0A \<notin> set t \<and> t \<noteq> []"
    using story_id_values_clean by blast
  have gen: "\<forall>t \<in> set (story_values st_genre g). t \<noteq> []"
    using story_values_nonempty by blast
  from cols(3) obtain fc where fc: "rw_full (full_row e g) = Some fc" by blast
  with cols have fcs: "fc_genres fc = (if story_values st_genre g = [] then None
                 else Some (join '';'' (story_values st_genre g)))"
     "fc_story_ids fc = (if story_id_values g = [] then None
                 else Some (join newline (story_id_values g)))"
    by simp_all
  obtain issue where issue: "format_gcd_issue (full_row e g) True = Inr issue"
    by (simp add: format_gcd_issue_def Let_def fc)
  from issue have fields:
    "gi_story_ids issue = split_truthy newline (fc_story_ids fc)"
    "gi_genres issue = map (\<lambda>genre. capitalize (strip genre)) (split_truthy '';'' (fc_genres fc))"
    "gi_story_titles issue =
       (case rw_story_titles (full_row e g) of None \<Rightarrow> [] | Some t \<Rightarrow> split newline t)"
    "gi_synopses issue =
       (case rw_synopses (full_row e g) of None \<Rightarrow> [] | Some t \<Rightarrow> split (newline @ newline) t)"
    by (auto simp: format_gcd_issue_def Let_def fc)
  have a1: "gi_story_ids issue = story_id_values g"
    unfolding fields fcs by (rule split_truthy_join[OF ids])
  have a2: "gi_genres issue = map (\<lambda>genre. capitalize (strip genre))
                   (concat (map (split '';'') (story_values st_genre g)))"
    unfolding fields fcs by (simp only: split_truthy_semicolon[OF gen])
  have a3: "gi_story_titles issue = concat (map (split newline) (story_values st_title g))"
    unfolding fields cols by (rule titles_flattened)
  have a4: "(\<forall>t \<in> set (story_values st_title g). CHR 0x0A \<notin> set t) \<longrightarrow>
                  gi_story_titles issue = story_values st_title g"
    unfolding fields cols using titles_round_trip(1) by blast
  have a5: "(\<forall>t \<in> set (story_values st_synopsis g). CHR 0x0A \<notin> set t) \<longrightarrow>
                  gi_synopses issue = story_values st_synopsis g"
    unfolding fields cols using titles_round_trip(2) by blast
  from issue a1 a2 a3 a4 a5 have asm: "\<exists>issue. format_gcd_issue (full_row e g) True = Inr issue
             \<and> gi_story_ids issue = story_id_values g
             \<and> gi_genres issue =
                 map (\<lambda>genre. capitalize (strip genre))
                   (concat (map (split '';'') (story_values st_genre g)))
             \<and> gi_story_titles issue = concat (map (split newline) (story_values st_title g))
             \<and> ((\<forall>t \<in> set (story_values st_title g). CHR 0x0A \<notin> set t) \<longrightarrow>
                  gi_story_titles issue = story_values st_title g)
             \<and> ((\<forall>t \<in> set (story_values st_synopsis g). CHR 0x0A \<notin> set t) \<longrightarrow>
                  gi_synopses issue = story_values st_synopsis g)"
    by (intro exI[of _ issue] conjI)
  have ex1: "map_sum id (\<lambda>i. (gi_story_titles i, gi_genres i, gi_story_ids i))
           (fst (fetch_issue_by_issue_id default_config
                   (sample_env [sample_issue 7 10 ''1'']
                      [sample_story 1 7 ''A'' ''x'', sample_story 2 7 [] ''y'', sample_story 3 7 [] []])
                   7 initial_state))
           = Inr ([''A''], [''X'', ''Y''], [''1'', ''2'', ''3''])"
    using sample_strings by (simp add: op_defs sample_defs)
  have ex2: "map_sum id (\<lambda>i. (gi_story_titles i, gi_genres i, gi_story_ids i))
           (fst (fetch_issue_by_issue_id default_config
                   (sample_env [sample_issue 7 10 ''1'']
                      [sample_story 1 7 ''A'' ''science FICTION; humor'',
                       sample_story 2 7 ''B'' '' western ''])
                   7 initial_state))
           = Inr ([''A'', ''B''], [''Science fiction'', ''Humor'', ''Western''], [''1'', ''2''])"
    using sample_strings sample_genres by (simp add: op_defs sample_defs)
  from cols fc fcs have c34: "map_option fc_genres (rw_full (full_row e g)) =
           Some (if story_values st_genre g = [] then None
                 else Some (join '';'' (story_values st_genre g)))"
    "map_option fc_story_ids (rw_full (full_row e g)) =
           Some (if story_id_values g = [] then None
                 else Some (join newline (story_id_values g)))"
    by simp_all
  from cols(1,2) c34 asm ex1 ex2 show ?thesis by (intro conjI)
qed

text \<open>
  An instance of the round trip: the group of one issue with the three stories of the
  example, where no title and no synopsis contains a newline.
\<close>

theorem grouped_concat_round_trip_witness:
  "story_values st_title
      [(sample_issue 7 10 ''1'', Some (sample_story 1 7 ''A'' ''x'')),
       (sample_issue 7 10 ''1'', Some (sample_story 2 7 [] ''y'')),
       (sample_issue 7 10 ''1'', Some (sample_story 3 7 [] []))] = [''A'']
   \<and> story_values st_synopsis
      [(sample_issue 7 10 ''1'', Some (sample_story 1 7 ''A'' ''x'')),
       (sample_issue 7 10 ''1'', Some (sample_story 2 7 [] ''y'')),
       (sample_issue 7 10 ''1'', Some (sample_story 3 7 [] []))] = []
   \<and> (\<exists>issue. format_gcd_issue
          (full_row (sample_env [] [])
             [(sample_issue 7 10 ''1'', Some (sample_story 1 7 ''A'' ''x'')),
              (sample_issue 7 10 ''1'', Some (sample_story 2 7 [] ''y'')),
              (sample_issue 7 10 ''1'', Some (sample_story 3 7 [] []))]) True = Inr issue
        \<and> gi_story_titles issue = [''A''] \<and> gi_synopses issue = []
        \<and> gi_story_ids issue = [''1'', ''2'', ''3'']
        \<and> gi_genres issue = [''X'', ''Y''])"
proof -
  let ?g = "[(sample_issue 7 10 ''1'', Some (sample_story 1 7 ''A'' ''x'')),
       (sample_issue 7 10 ''1'', Some (sample_story 2 7 [] ''y'')),
       (sample_issue 7 10 ''1'', Some (sample_story 3 7 [] []))]"
  have t: "story_values st_title ?g = [''A'']"
    by (simp add: story_values_def non_null_def nonempty_def story_col_def sample_story_def)
  have y: "story_values st_synopsis ?g = []"
    by (simp add: story_values_def non_null_def nonempty_def story_col_def sample_story_def)
  have n: "story_values st_genre ?g = [''x'', ''y'']"
    by (simp add: story_values_def non_null_def nonempty_def story_col_def sample_story_def)
  have i: "story_id_values ?g = [''1'', ''2'', ''3'']"
    using sample_strings by (simp add: story_id_values_def non_null_def sample_story_def)
  have s: "split '';'' ''x'' = [''x'']" "split '';'' ''y'' = [''y'']" by code_simp+
  have h1: "\<forall>t \<in> set (story_values st_title ?g). CHR 0x0A \<notin> set t" by (simp add: t)
  have h2: "\<forall>t \<in> set (story_values st_synopsis ?g). CHR 0x0A \<notin> set t" by (simp add: y)
  from grouped_concat_round_trip[where g = ?g and e = "sample_env [] []"]
  obtain issue where issue: "format_gcd_issue (full_row (sample_env [] []) ?g) True = Inr issue"
    "gi_story_ids issue = story_id_values ?g"
    "gi_genres issue = map (\<lambda>genre. capitalize (strip genre))
                   (concat (map (split '';'') (story_values st_genre ?g)))"
    "(\<forall>t \<in> set (story_values st_title ?g). CHR 0x0A \<notin> set t) \<longrightarrow>
                  gi_story_titles issue = story_values st_title ?g"
    "(\<forall>t \<in> set (story_values st_synopsis ?g). CHR 0x0A \<notin> set t) \<longrightarrow>
                  gi_synopses issue = story_values st_synopsis ?g"
    by (elim conjE exE)
  from issue(4) h1 have tt: "gi_story_titles issue = [''A'']" unfolding t by (rule mp)
  from issue(5) h2 have yy: "gi_synopses issue = []" unfolding y by (rule mp)
  from issue(2) have ii: "gi_story_ids issue = [''1'', ''2'', ''3'']" unfolding i .
  from issue(3) have gg: "gi_genres issue = [''X'', ''Y'']"
    unfolding n using s sample_strings by simp
  from issue(1) tt yy ii gg have "\<exists>issue. format_gcd_issue (full_row (sample_env [] []) ?g) True = Inr issue
        \<and> gi_story_titles issue = [''A''] \<and> gi_synopses issue = []
        \<and> gi_story_ids issue = [''1'', ''2'', ''3'']
        \<and> gi_genres issue = [''X'', ''Y'']"
    by (intro exI[of _ issue] conjI)
  with t y show ?thesis by (intro conjI)
qed

text \<open>
  Claim C8 as stated fails: a synopsis with a blank line, "p", two newlines, "q", is one
  value of one story, and the assembler, splitting on the double newline, returns the two
  synopses "p" and "q".
\<close>

theorem grouped_concat_counterexample:
  "story_values st_synopsis
      [(sample_issue 7 10 ''1'',
        Some ((sample_story 1 7 ''A'' ''x'')\<lparr>st_synopsis := Some (''p'' @ newline @ newline @ ''q'')\<rparr>))]
     = [''p'' @ newline @ newline @ ''q'']
   \<and> map_sum id gi_synopses
        (fst (fetch_issue_by_issue_id default_config
                (sample_env [sample_issue 7 10 ''1'']
                   [(sample_story 1 7 ''A'' ''x'')\<lparr>st_synopsis := Some (''p'' @ newline @ newline @ ''q'')\<rparr>])
                7 initial_state))
     = Inr [''p'', ''q'']"
proof -
  have 1: "story_values st_synopsis
      [(sample_issue 7 10 ''1'',
        Some ((sample_story 1 7 ''A'' ''x'')\<lparr>st_synopsis := Some (''p'' @ newline @ newline @ ''q'')\<rparr>))]
     = [''p'' @ newline @ newline @ ''q'']"
    by (simp add: story_values_def non_null_def nonempty_def story_col_def sample_story_def)
  have 2: "map_sum id gi_synopses
        (fst (fetch_issue_by_issue_id default_config
                (sample_env [sample_issue 7 10 ''1'']
                   [(sample_story 1 7 ''A'' ''x'')\<lparr>st_synopsis := Some (''p'' @ newline @ newline @ ''q'')\<rparr>])
                7 initial_state))
     = Inr [''p'', ''q'']"
    using sample_strings sample_synopsis by (simp add: op_defs sample_defs)
  from 1 2 show ?thesis by (rule conjI)
qed

section \<open>The multi-series lookup\<close>

lemma sql_like_percent: "sql_like ''%'' s"
  by (induction s) simp_all

lemma year_pattern_None: "year_pattern None = ''%''"
  by (simp add: year_pattern_def)

lemma issues_matching_any_year:
  "issues_matching d nn sid num ''%'' =
     filter (\<lambda>i. is_series_id i = sid \<and> number_wanted nn num (is_number i)) (issues d)"
  by (simp add: issues_matching_def sql_like_percent)

lemma join_stories_not_Nil: "join_stories d i \<noteq> []"
  by (simp add: join_stories_def split: list.splits)

lemma joined_fst_set:
  "fst ` set (concat (map (join_stories d) is)) = set is"
proof (induction "is")
  case Nil
  then show ?case by simp
next
  case (Cons i "is")
  have "fst ` set (join_stories d i) = {i}"
    using join_stories_not_Nil[of d i] join_stories_fst[of _ d i]
    by (cases "join_stories d i") (auto simp: image_iff)
  with Cons show ?case by (simp add: image_Un)
qed

lemma set_insert_sorted: "set (insert_sorted x ys) = insert x (set ys)"
  by (induction ys) auto

lemma set_sort_strings: "set (sort_strings xs) = set xs"
  by (induction xs) (simp_all add: set_insert_sorted)

lemma distinct_insert_sorted: "distinct (insert_sorted x ys) = (x \<notin> set ys \<and> distinct ys)"
  by (induction ys) (auto simp: set_insert_sorted)

lemma distinct_sort_strings: "distinct (sort_strings xs) = distinct xs"
  by (induction xs) (simp_all add: distinct_insert_sorted set_sort_strings)

lemma char_le_antisym: "char_le c d \<Longrightarrow> char_le d c \<Longrightarrow> c = d"
  by (simp add: char_le_def)

lemma str_le_trans: "str_le x y \<Longrightarrow> str_le y z \<Longrightarrow> str_le x z"
proof (induction x y arbitrary: z rule: str_le.induct)
  case (1 t)
  then show ?case by simp
next
  case (2 c cs)
  then show ?case by simp
next
  case (3 c cs d ds)
  show ?case
  proof (cases z)
    case Nil
    with 3 show ?thesis by simp
  next
    case (Cons k ks)
    show ?thesis
    proof (cases "c = d")
      case True
      with 3 Cons show ?thesis by (auto split: if_splits)
    next
      case cd: False
      show ?thesis
      proof (cases "d = k")
        case True
        with 3 Cons cd show ?thesis by (auto split: if_splits)
      next
        case dk: False
        from 3(2) cd have 1: "char_le c d" by simp
        from 3(3) Cons dk have 2: "char_le d k" by simp
        from 1 2 have 3: "char_le c k" by (simp add: char_le_def)
        from 1 2 cd have "c \<noteq> k" using char_le_antisym by blast
        with 3 Cons show ?thesis by simp
      qed
    qed
  qed
qed

lemma str_le_total: "str_le x y \<or> str_le y x"
proof (induction x y rule: str_le.induct)
  case (1 t)
  then show ?case by simp
next
  case (2 c cs)
  then show ?case by simp
next
  case (3 c cs d ds)
  then show ?case by (auto simp: char_le_def)
qed

lemma sorted_insert_sorted:
  "sorted_wrt str_le ys \<Longrightarrow> sorted_wrt str_le (insert_sorted x ys)"
proof (induction ys)
  case Nil
  then show ?case by simp
next
  case (Cons y ys)
  show ?case
  proof (cases "str_le x y")
    case True
    with Cons.prems show ?thesis by (auto intro: str_le_trans)
  next
    case False
    with str_le_total[of x y] have "str_le y x" by simp
    with False Cons show ?thesis by (auto simp: set_insert_sorted)
  qed
qed

lemma sorted_sort_strings: "sorted_wrt str_le (sort_strings xs)"
  by (induction xs) (simp_all add: sorted_insert_sorted)

lemma group_member:
  assumes "pick_ok e" and "g \<in> set (group_by_number js)"
  shows "pick e g \<in> set js \<and> g = filter (\<lambda>j. is_number (fst j) = is_number (fst (pick e g))) js"
proof -
  from assms(2) obtain n where n: "n \<in> set (map (\<lambda>j. is_number (fst j)) js)"
    and g: "g = filter (\<lambda>j. is_number (fst j) = n) js"
    by (auto simp: group_by_number_def set_sort_strings)
  from n g have "g \<noteq> []" by (auto simp: filter_empty_conv)
  with assms(1) have p: "pick e g \<in> set g" unfolding pick_ok_def by blast
  with g have "pick e g \<in> set js" "is_number (fst (pick e g)) = n" by auto
  with g show ?thesis by simp
qed

lemma listing_row_cols:
  "rw_id (listing_row e g) = is_id (fst (pick e g))"
  "rw_number (listing_row e g) = is_number (fst (pick e g))"
  "rw_series_id (listing_row e g) = is_series_id (fst (pick e g))"
  by (simp_all add: listing_row_def Let_def)

lemma group_numbers:
  assumes "pick_ok e"
  shows "map (\<lambda>g. is_number (fst (pick e g))) (group_by_number js)
           = sort_strings (remdups (map (\<lambda>j. is_number (fst j)) js))"
proof -
  have "is_number (fst (pick e (filter (\<lambda>j. is_number (fst j) = n) js))) = n"
    if "n \<in> set (map (\<lambda>j. is_number (fst j)) js)" for n
  proof -
    from that have "filter (\<lambda>j. is_number (fst j) = n) js \<noteq> []" by (auto simp: filter_empty_conv)
    with assms have "pick e (filter (\<lambda>j. is_number (fst j) = n) js)
        \<in> set (filter (\<lambda>j. is_number (fst j) = n) js)" unfolding pick_ok_def by blast
    then show ?thesis by simp
  qed
  then have "map (\<lambda>n. is_number (fst (pick e (filter (\<lambda>j. is_number (fst j) = n) js))))
                (sort_strings (remdups (map (\<lambda>j. is_number (fst j)) js)))
             = map (\<lambda>n. n) (sort_strings (remdups (map (\<lambda>j. is_number (fst j)) js)))"
    by (intro map_cong) (auto simp: set_sort_strings)
  then show ?thesis by (simp add: group_by_number_def comp_def)
qed

lemma rows_by_number_sound:
  assumes "pick_ok e" and "r \<in> set (sql_issues_by_number e nn vid num ''%'')"
  shows "\<exists>i \<in> set (issues (db e)). is_series_id i = vid \<and> number_wanted nn num (is_number i)
           \<and> rw_id r = is_id i \<and> rw_number r = is_number i \<and> rw_series_id r = vid"
proof -
  let ?M = "issues_matching (db e) nn vid num ''%''"
  let ?J = "concat (map (join_stories (db e)) ?M)"
  from assms(2) obtain g where g: "g \<in> set (group_by_number ?J)" and r: "r = listing_row e g"
    by (auto simp: sql_issues_by_number_def)
  from group_member[OF assms(1) g] have "pick e g \<in> set ?J" by simp
  then have "fst (pick e g) \<in> fst ` set ?J" by (rule imageI)
  then have m: "fst (pick e g) \<in> set ?M" by (simp only: joined_fst_set)
  then have "fst (pick e g) \<in> set (issues (db e))" "is_series_id (fst (pick e g)) = vid"
    "number_wanted nn num (is_number (fst (pick e g)))"
    by (simp_all add: issues_matching_any_year)
  with r show ?thesis by (auto simp: listing_row_cols)
qed

lemma rows_by_number_numbers:
  assumes "pick_ok e"
  shows "map rw_number (sql_issues_by_number e nn vid num ''%'')
           = sort_strings (remdups (map (\<lambda>j. is_number (fst j))
                (concat (map (join_stories (db e)) (issues_matching (db e) nn vid num ''%'')))))"
  using group_numbers[OF assms]
  by (simp add: sql_issues_by_number_def comp_def listing_row_cols)

lemma rows_by_number_sorted:
  assumes "pick_ok e"
  shows "sorted_wrt str_le (map rw_number (sql_issues_by_number e nn vid num ''%''))"
  by (simp only: rows_by_number_numbers[OF assms] sorted_sort_strings)

lemma rows_by_number_distinct:
  assumes "pick_ok e"
  shows "distinct (map rw_number (sql_issues_by_number e nn vid num ''%''))"
    and "set (map rw_number (sql_issues_by_number e nn vid num ''%''))
           = is_number ` {i \<in> set (issues (db e)). is_series_id i = vid \<and> number_wanted nn num (is_number i)}"
proof -
  let ?M = "issues_matching (db e) nn vid num ''%''"
  let ?J = "concat (map (join_stories (db e)) ?M)"
  show "distinct (map rw_number (sql_issues_by_number e nn vid num ''%''))"
    by (simp only: rows_by_number_numbers[OF assms] distinct_sort_strings distinct_remdups)
  have "set (map (\<lambda>j. is_number (fst j)) ?J) = is_number ` (fst ` set ?J)"
    by (auto simp: image_iff)
  also have "\<dots> = is_number ` set ?M" by (simp only: joined_fst_set)
  also have "\<dots> = is_number ` {i \<in> set (issues (db e)). is_series_id i = vid \<and> number_wanted nn num (is_number i)}"
    by (simp add: issues_matching_any_year)
  finally show "set (map rw_number (sql_issues_by_number e nn vid num ''%''))
           = is_number ` {i \<in> set (issues (db e)). is_series_id i = vid \<and> number_wanted nn num (is_number i)}"
    by (simp only: rows_by_number_numbers[OF assms] set_sort_strings set_remdups)
qed

lemma rows_by_number_exact:
  assumes "pick_ok e"
    and d: "distinct (map is_number (filter (\<lambda>i. is_series_id i = vid \<and> number_wanted nn num (is_number i)) (issues (db e))))"
  shows "set (map rw_id (sql_issues_by_number e nn vid num ''%''))
           = is_id ` {i \<in> set (issues (db e)). is_series_id i = vid \<and> number_wanted nn num (is_number i)}"
    and "length (sql_issues_by_number e nn vid num ''%'')
           = length (filter (\<lambda>i. is_series_id i = vid \<and> number_wanted nn num (is_number i)) (issues (db e)))"
proof -
  let ?M = "filter (\<lambda>i. is_series_id i = vid \<and> number_wanted nn num (is_number i)) (issues (db e))"
  let ?R = "sql_issues_by_number e nn vid num ''%''"
  have setM: "set ?M = {i \<in> set (issues (db e)). is_series_id i = vid \<and> number_wanted nn num (is_number i)}"
    by auto
  from d have inj: "inj_on is_number (set ?M)" by (simp add: distinct_map)
  show "set (map rw_id ?R) = is_id ` {i \<in> set (issues (db e)). is_series_id i = vid \<and> number_wanted nn num (is_number i)}"
  proof (intro equalityI subsetI)
    fix x assume "x \<in> set (map rw_id ?R)"
    then obtain r where "r \<in> set ?R" "x = rw_id r" by auto
    with rows_by_number_sound[OF assms(1)] show "x \<in> is_id ` {i \<in> set (issues (db e)). is_series_id i = vid \<and> number_wanted nn num (is_number i)}"
      by blast
  next
    fix x assume "x \<in> is_id ` {i \<in> set (issues (db e)). is_series_id i = vid \<and> number_wanted nn num (is_number i)}"
    then obtain i where i: "i \<in> set ?M" "x = is_id i" by auto
    then have "is_number i \<in> set (map rw_number ?R)"
      by (simp only: rows_by_number_distinct(2)[OF assms(1)] setM[symmetric]) simp
    then obtain r where r: "r \<in> set ?R" "rw_number r = is_number i" by auto
    from rows_by_number_sound[OF assms(1) r(1)] obtain i' where
      i': "i' \<in> set ?M" "rw_id r = is_id i'" "rw_number r = is_number i'" by auto
    with r i inj have "i' = i" by (auto dest: inj_onD)
    with i' i r show "x \<in> set (map rw_id ?R)" by force
  qed
  have "length ?R = length (map rw_number ?R)" by simp
  also have "\<dots> = card (set (map rw_number ?R))"
    using rows_by_number_distinct(1)[OF assms(1)] by (simp only: distinct_card)
  also have "\<dots> = card (is_number ` set ?M)"
    by (simp only: rows_by_number_distinct(2)[OF assms(1)] setM)
  also have "\<dots> = card (set ?M)" using inj by (rule card_image)
  also have "\<dots> = length ?M"
  proof -
    from d have "distinct ?M" by (rule distinct_map[THEN iffD1, THEN conjunct1])
    then show ?thesis by (rule distinct_card)
  qed
  finally show "length ?R = length ?M" .
qed


lemma md_issue_id_map [simp]:
  "md_issue_id (map_comic_issue_to_metadata ex cfg issue series) = Some (str_int (gi_id issue))"
  by (simp add: map_comic_issue_to_metadata_def)

lemma format_gcd_issue_listing: "\<exists>issue. format_gcd_issue r False = Inr issue"
  by (simp add: format_gcd_issue_def Let_def)

lemma issues_loop_ids:
  "issues_loop ex cfg e series rows results s = (Inr out, s') \<Longrightarrow>
   map md_issue_id out = map md_issue_id results @ map (\<lambda>r. Some (str_int (rw_id r))) rows"
proof (induction rows arbitrary: results s)
  case Nil
  then show ?case by simp
next
  case (Cons r rows)
  obtain issue where f: "format_gcd_issue r False = Inr issue"
    using format_gcd_issue_listing by blast
  then have id: "gi_id issue = rw_id r" using format_gcd_issue_id by blast
  show ?case
  proof (cases "download_tag_covers cfg")
    case False
    with Cons.prems f have "issues_loop ex cfg e series rows
        (results @ [map_comic_issue_to_metadata ex cfg issue series]) s = (Inr out, s')"
      by simp
    from Cons.IH[OF this] id show ?thesis by simp
  next
    case True
    with Cons.prems f obtain img variants s1 where
      "find_issue_images e (gi_id issue) s = (Inr (img, variants), s1)"
      by (auto split: prod.splits sum.splits)
    with True Cons.prems f have "issues_loop ex cfg e series rows
        (results @ [map_comic_issue_to_metadata ex cfg
           (issue\<lparr>gi_image := img, gi_alt_image_urls := variants, gi_covers_downloaded := True\<rparr>)
           series]) s1 = (Inr out, s')"
      by simp
    from Cons.IH[OF this] id show ?thesis by simp
  qed
qed

lemma series_loop_ids:
  "series_loop ex cfg e nn num pat ids results s = (Inr out, s') \<Longrightarrow>
   map md_issue_id out =
     map md_issue_id results @
     map (\<lambda>r. Some (str_int (rw_id r))) (concat (map (\<lambda>vid. sql_issues_by_number e nn vid num pat) ids))"
proof (induction ids arbitrary: results s)
  case Nil
  then show ?case by simp
next
  case (Cons vid ids)
  from Cons.prems obtain series s1 where fs: "fetch_series_data cfg e vid s = (Inr series, s1)"
    by (auto split: prod.splits sum.splits)
  with Cons.prems obtain results' s2 where
    il: "issues_loop ex cfg e series (sql_issues_by_number e nn vid num pat) results s1 = (Inr results', s2)"
    by (auto split: prod.splits sum.splits)
  with fs Cons.prems have "series_loop ex cfg e nn num pat ids results' s2 = (Inr out, s')"
    by simp
  from Cons.IH[OF this] issues_loop_ids[OF il] show ?case by simp
qed

lemma find_issue_images_returns:
  "cover_imgs e k \<noteq> None \<Longrightarrow> \<exists>v s1. find_issue_images e k s = (Inr v, s1)"
  by (auto simp: find_issue_images_def Let_def split: list.splits)

lemma issues_loop_returns:
  "\<forall>k. cover_imgs e k \<noteq> None \<Longrightarrow> \<exists>out s'. issues_loop ex cfg e series rows results s = (Inr out, s')"
proof (induction rows arbitrary: results s)
  case Nil
  then show ?case by simp
next
  case (Cons r rows)
  obtain issue where f: "format_gcd_issue r False = Inr issue"
    using format_gcd_issue_listing by blast
  show ?case
  proof (cases "download_tag_covers cfg")
    case False
    with f Cons show ?thesis by simp
  next
    case True
    from Cons.prems obtain img variants s1 where
      "find_issue_images e (gi_id issue) s = (Inr (img, variants), s1)"
      using find_issue_images_returns[of e "gi_id issue" s] by auto
    with True f Cons show ?thesis by simp
  qed
qed

lemma publisher_series_row:
  "publisher_series d (\<lambda>r. sr_id r = vid) \<noteq> [] \<Longrightarrow>
   filter (\<lambda>r. sr_id r = vid) (series_tbl d) \<noteq> []"
  by (auto simp: publisher_series_def filter_empty_conv)

lemma find_series_image_returns:
  assumes "is_file e (db_file cfg)" and "filter (\<lambda>r. sr_id r = vid) (series_tbl (db e)) \<noteq> []"
    and "\<forall>k. cover_imgs e k \<noteq> None"
  shows "\<exists>img s1. find_series_image cfg e vid s = (Inr img, s1)"
proof -
  from assms(2) obtain r rs where r: "filter (\<lambda>r. sr_id r = vid) (series_tbl (db e)) = r # rs"
    by (cases "filter (\<lambda>r. sr_id r = vid) (series_tbl (db e))") auto
  show ?thesis
  proof (cases "sr_first_issue_id r")
    case None
    with r assms(1) show ?thesis by (simp add: find_series_image_def db_opens_def Let_def)
  next
    case (Some k)
    from assms(3) obtain v s1 where "find_issue_images e k (connect cfg e s) = (Inr v, s1)"
      using find_issue_images_returns[of e k] by blast
    with Some r assms(1) show ?thesis
      by (cases v) (simp add: find_series_image_def db_opens_def Let_def)
  qed
qed

lemma query_series_data_returns:
  assumes "is_file e (db_file cfg)" and "publisher_series (db e) (\<lambda>r. sr_id r = vid) \<noteq> []"
    and "\<forall>k. cover_imgs e k \<noteq> None"
  shows "\<exists>series s1. query_series_data cfg e vid s = (Inr series, s1)"
proof -
  from assms(2) obtain r p rs where r: "publisher_series (db e) (\<lambda>r. sr_id r = vid) = (r, p) # rs"
    by (cases "publisher_series (db e) (\<lambda>r. sr_id r = vid)") auto
  have "\<exists>img s2. (if download_gui_covers cfg then find_series_image cfg e vid (connect cfg e s)
                     else (Inr [], connect cfg e s)) = (Inr img, s2)"
  proof (cases "download_gui_covers cfg")
    case True
    with find_series_image_returns[OF assms(1) publisher_series_row[OF assms(2)] assms(3),
        of "connect cfg e s"]
    show ?thesis by simp
  next
    case False
    then show ?thesis by simp
  qed
  then obtain img s2 where "(if download_gui_covers cfg then find_series_image cfg e vid (connect cfg e s)
                     else (Inr [], connect cfg e s)) = (Inr img, s2)"
    by blast
  with r assms(1) show ?thesis by (simp add: query_series_data_def db_opens_def Let_def)
qed

lemma fetch_series_data_returns:
  assumes "is_file e (db_file cfg)" and "publisher_series (db e) (\<lambda>r. sr_id r = vid) \<noteq> []"
    and "\<forall>k. cover_imgs e k \<noteq> None"
  shows "\<exists>series s1. fetch_series_data cfg e vid s = (Inr series, s1)"
  using query_series_data_returns[OF assms]
  by (auto simp: fetch_series_data_def split: option.splits prod.splits bool.splits)

lemma series_loop_returns:
  assumes "is_file e (db_file cfg)" and "\<forall>k. cover_imgs e k \<noteq> None"
  shows "\<forall>vid \<in> set ids. publisher_series (db e) (\<lambda>r. sr_id r = vid) \<noteq> [] \<Longrightarrow>
         \<exists>out s'. series_loop ex cfg e nn num pat ids results s = (Inr out, s')"
proof (induction ids arbitrary: results s)
  case Nil
  then show ?case by simp
next
  case (Cons vid ids)
  from Cons.prems have "publisher_series (db e) (\<lambda>r. sr_id r = vid) \<noteq> []" by simp
  from fetch_series_data_returns[OF assms(1) this assms(2)]
  obtain series s1 where fs: "fetch_series_data cfg e vid s = (Inr series, s1)" by blast
  from issues_loop_returns[OF assms(2)] obtain results' s2 where
    il: "issues_loop ex cfg e series (sql_issues_by_number e nn vid num pat) results s1 = (Inr results', s2)"
    by blast
  from Cons.prems have "\<forall>vid \<in> set ids. publisher_series (db e) (\<lambda>r. sr_id r = vid) \<noteq> []" by simp
  from Cons.IH[OF this] fs il show ?case by simp
qed

lemma fetch_issues_by_number_ids:
  assumes "fetch_issues_by_series_issue_num_and_year ex cfg e ids ''1'' None s = (Inr mds, s')"
  shows "map md_issue_id mds =
           map (\<lambda>r. Some (str_int (rw_id r)))
             (concat (map (\<lambda>vid. sql_issues_by_number e (nn_is_issue_one cfg) vid ''1'' ''%'') ids))"
proof -
  from assms obtain s2 where
    "series_loop ex cfg e (nn_is_issue_one cfg) ''1'' ''%'' ids [] s2 = (Inr mds, s')"
    by (auto simp: fetch_issues_by_series_issue_num_and_year_def year_pattern_None Let_def
          split: prod.splits sum.splits if_splits)
  from series_loop_ids[OF this] show ?thesis by simp
qed

lemma fetch_issues_by_number_returns:
  assumes "db_file cfg \<noteq> []" and "is_file e (db_file cfg)"
    and "\<forall>vid \<in> set ids. publisher_series (db e) (\<lambda>r. sr_id r = vid) \<noteq> []"
    and "\<forall>k. cover_imgs e k \<noteq> None"
    and "\<not> read_pending s"
  shows "\<exists>mds s'. fetch_issues_by_series_issue_num_and_year ex cfg e ids num year s = (Inr mds, s')"
proof -
  have "\<exists>s1. check_create_index cfg e s = (Inr (), s1)"
    using assms(1,2,5)
    by (cases "has_issue_id_type_id_index s")
       (simp_all add: check_create_index_def check_db_filename_not_empty_def path_is_file_def
          db_opens_def connect_fields Let_def)
  then obtain s1 where c: "check_create_index cfg e s = (Inr (), s1)" by blast
  from series_loop_returns[OF assms(2,4,3)] c assms(2) show ?thesis
    by (simp add: fetch_issues_by_series_issue_num_and_year_def db_opens_def Let_def)
qed


text \<open>
  Claim C1, amended. For the requested number "1" and no year, the records that
  \<^verbatim>\<open>fetch_issues_by_series_issue_num_and_year\<close> returns are, series by series in the
  order of the list, the rows of the grouped query; the call returns them whenever the
  database file exists, no other connection still reads the database, every requested
  series has a row with its publisher, and no cover request fails. For each series the
  query has exactly one row per distinct issue number among the issue rows of that series
  numbered "1" or, with the alias policy on, "[nn]" (with the policy off: numbered "1"),
  the rows come in the byte order of their numbers ("1" before "[nn]"), and each row is
  taken from one issue row of that series with that number. When no two such issue rows of
  the series share a number, the rows of the query are exactly those issue rows.
\<close>

theorem issues_by_number_one_per_number:
  assumes "pick_ok e"
  shows "(\<forall>mds s'. fetch_issues_by_series_issue_num_and_year ex cfg e ids ''1'' None s = (Inr mds, s') \<longrightarrow>
            map md_issue_id mds =
              map (\<lambda>r. Some (str_int (rw_id r)))
                (concat (map (\<lambda>vid. sql_issues_by_number e (nn_is_issue_one cfg) vid ''1'' ''%'') ids)))
       \<and> (db_file cfg \<noteq> [] \<and> is_file e (db_file cfg)
            \<and> (\<forall>vid \<in> set ids. publisher_series (db e) (\<lambda>r. sr_id r = vid) \<noteq> [])
            \<and> (\<forall>k. cover_imgs e k \<noteq> None) \<and> \<not> read_pending s \<longrightarrow>
          (\<exists>mds s'. fetch_issues_by_series_issue_num_and_year ex cfg e ids ''1'' None s = (Inr mds, s')))
       \<and> (\<forall>r \<in> set (sql_issues_by_number e (nn_is_issue_one cfg) vid ''1'' ''%'').
            \<exists>i \<in> set (issues (db e)).
              is_series_id i = vid
              \<and> (is_number i = ''1'' \<or> nn_is_issue_one cfg \<and> is_number i = ''[nn]'')
              \<and> rw_id r = is_id i \<and> rw_number r = is_number i)
       \<and> distinct (map rw_number (sql_issues_by_number e (nn_is_issue_one cfg) vid ''1'' ''%''))
       \<and> sorted_wrt str_le (map rw_number (sql_issues_by_number e (nn_is_issue_one cfg) vid ''1'' ''%''))
       \<and> set (map rw_number (sql_issues_by_number e (nn_is_issue_one cfg) vid ''1'' ''%'')) =
           is_number ` {i \<in> set (issues (db e)). is_series_id i = vid
                          \<and> (is_number i = ''1'' \<or> nn_is_issue_one cfg \<and> is_number i = ''[nn]'')}
       \<and> (distinct (map is_number
              (filter (\<lambda>i. is_series_id i = vid
                          \<and> (is_number i = ''1'' \<or> nn_is_issue_one cfg \<and> is_number i = ''[nn]''))
                 (issues (db e)))) \<longrightarrow>
           set (map rw_id (sql_issues_by_number e (nn_is_issue_one cfg) vid ''1'' ''%'')) =
             is_id ` {i \<in> set (issues (db e)). is_series_id i = vid
                          \<and> (is_number i = ''1'' \<or> nn_is_issue_one cfg \<and> is_number i = ''[nn]'')}
           \<and> length (sql_issues_by_number e (nn_is_issue_one cfg) vid ''1'' ''%'') =
               length (filter (\<lambda>i. is_series_id i = vid
                          \<and> (is_number i = ''1'' \<or> nn_is_issue_one cfg \<and> is_number i = ''[nn]''))
                 (issues (db e))))"
proof -
  let ?nn = "nn_is_issue_one cfg"
  have w: "number_wanted ?nn ''1'' n = (n = ''1'' \<or> ?nn \<and> n = ''[nn]'')" for n
    by (simp add: number_wanted_def)
  have 1: "\<forall>mds s'. fetch_issues_by_series_issue_num_and_year ex cfg e ids ''1'' None s = (Inr mds, s') \<longrightarrow>
            map md_issue_id mds =
              map (\<lambda>r. Some (str_int (rw_id r)))
                (concat (map (\<lambda>vid. sql_issues_by_number e ?nn vid ''1'' ''%'') ids))"
    using fetch_issues_by_number_ids by blast
  have 2: "db_file cfg \<noteq> [] \<and> is_file e (db_file cfg)
            \<and> (\<forall>vid \<in> set ids. publisher_series (db e) (\<lambda>r. sr_id r = vid) \<noteq> [])
            \<and> (\<forall>k. cover_imgs e k \<noteq> None) \<and> \<not> read_pending s \<longrightarrow>
          (\<exists>mds s'. fetch_issues_by_series_issue_num_and_year ex cfg e ids ''1'' None s = (Inr mds, s'))"
    using fetch_issues_by_number_returns by blast
  have 3: "\<forall>r \<in> set (sql_issues_by_number e ?nn vid ''1'' ''%'').
            \<exists>i \<in> set (issues (db e)).
              is_series_id i = vid \<and> (is_number i = ''1'' \<or> ?nn \<and> is_number i = ''[nn]'')
              \<and> rw_id r = is_id i \<and> rw_number r = is_number i"
    using rows_by_number_sound[OF assms, of _ ?nn vid "''1''"] unfolding w by blast
  have 4: "distinct (map rw_number (sql_issues_by_number e ?nn vid ''1'' ''%''))"
    by (rule rows_by_number_distinct(1)[OF assms])
  have 7: "sorted_wrt str_le (map rw_number (sql_issues_by_number e ?nn vid ''1'' ''%''))"
    by (rule rows_by_number_sorted[OF assms])
  have 5: "set (map rw_number (sql_issues_by_number e ?nn vid ''1'' ''%'')) =
           is_number ` {i \<in> set (issues (db e)). is_series_id i = vid
                          \<and> (is_number i = ''1'' \<or> ?nn \<and> is_number i = ''[nn]'')}"
    using rows_by_number_distinct(2)[OF assms, of ?nn vid "''1''"] unfolding w .
  have 6: "distinct (map is_number
              (filter (\<lambda>i. is_series_id i = vid \<and> (is_number i = ''1'' \<or> ?nn \<and> is_number i = ''[nn]''))
                 (issues (db e)))) \<longrightarrow>
           set (map rw_id (sql_issues_by_number e ?nn vid ''1'' ''%'')) =
             is_id ` {i \<in> set (issues (db e)). is_series_id i = vid
                          \<and> (is_number i = ''1'' \<or> ?nn \<and> is_number i = ''[nn]'')}
           \<and> length (sql_issues_by_number e ?nn vid ''1'' ''%'') =
               length (filter (\<lambda>i. is_series_id i = vid
                          \<and> (is_number i = ''1'' \<or> ?nn \<and> is_number i = ''[nn]''))
                 (issues (db e)))"
    using rows_by_number_exact[OF assms, of vid ?nn "''1''"] unfolding w by blast
  from 1 2 3 4 7 5 6 show ?thesis by blast
qed


lemmas lookup_defs = fetch_issues_by_series_issue_num_and_year_def check_create_index_def
  check_db_filename_not_empty_def db_opens_def log_event_def connect_def path_is_file_def
  year_pattern_def sql_issues_by_number_def issues_matching_def number_wanted_def
  join_stories_def group_by_number_def char_le_def listing_row_def group_concat_def non_null_def
  nonempty_def story_col_def fetch_series_data_def query_series_data_def publisher_series_def
  format_gcd_issue_def Let_def

text \<open>
  An instance of the lookup: series 10 has the issues 1 (number "[nn]"), 2 (number "1") and
  3 (number "2"), series 99 the issue 4 (number "1"). With the alias policy on, the lookup
  of number "1" in series 10 returns the issue 2 and then the issue 1: the group of "1"
  comes before the group of "[nn]", whatever the order of the rows in the table.
\<close>

theorem issues_by_number_one_per_number_witness:
  "pick_ok (sample_env [sample_issue 1 10 ''[nn]'', sample_issue 2 10 ''1'',
                        sample_issue 3 10 ''2'', sample_issue 4 99 ''1''] [])
   \<and> (\<exists>mds s'. fetch_issues_by_series_issue_num_and_year sample_ext default_config
          (sample_env [sample_issue 1 10 ''[nn]'', sample_issue 2 10 ''1'',
                       sample_issue 3 10 ''2'', sample_issue 4 99 ''1''] [])
          [10] ''1'' None initial_state = (Inr mds, s')
        \<and> map md_issue_id mds = [Some ''2'', Some ''1''])"
proof -
  let ?e = "sample_env [sample_issue 1 10 ''[nn]'', sample_issue 2 10 ''1'',
                        sample_issue 3 10 ''2'', sample_issue 4 99 ''1''] []"
  have p: "pick_ok ?e" by (rule pick_ok_sample)
  note t = issues_by_number_one_per_number[OF p, where ex = sample_ext and cfg = default_config
      and ids = "[10]" and s = initial_state and vid = 10]
  have pre: "db_file default_config \<noteq> [] \<and> is_file ?e (db_file default_config)
       \<and> (\<forall>vid \<in> set [10]. publisher_series (db ?e) (\<lambda>r. sr_id r = vid) \<noteq> [])
       \<and> (\<forall>k. cover_imgs ?e k \<noteq> None) \<and> \<not> read_pending initial_state"
    by (simp add: sample_defs publisher_series_def)
  from t have A: "\<forall>mds s'. fetch_issues_by_series_issue_num_and_year sample_ext default_config ?e
          [10] ''1'' None initial_state = (Inr mds, s') \<longrightarrow>
        map md_issue_id mds =
          map (\<lambda>r. Some (str_int (rw_id r)))
            (concat (map (\<lambda>vid. sql_issues_by_number ?e (nn_is_issue_one default_config) vid ''1'' ''%'') [10]))"
    by (rule conjunct1)
  from t have "db_file default_config \<noteq> [] \<and> is_file ?e (db_file default_config)
       \<and> (\<forall>vid \<in> set [10]. publisher_series (db ?e) (\<lambda>r. sr_id r = vid) \<noteq> [])
       \<and> (\<forall>k. cover_imgs ?e k \<noteq> None) \<and> \<not> read_pending initial_state \<longrightarrow>
     (\<exists>mds s'. fetch_issues_by_series_issue_num_and_year sample_ext default_config ?e [10] ''1'' None
          initial_state = (Inr mds, s'))"
    by (rule conjunct2[THEN conjunct1])
  from this pre have "\<exists>mds s'. fetch_issues_by_series_issue_num_and_year sample_ext default_config ?e
        [10] ''1'' None initial_state = (Inr mds, s')"
    by (rule mp)
  then obtain mds s' where
    r: "fetch_issues_by_series_issue_num_and_year sample_ext default_config ?e [10] ''1'' None
          initial_state = (Inr mds, s')"
    by (elim exE)
  have rows: "map rw_id (sql_issues_by_number ?e (nn_is_issue_one default_config) 10 ''1'' ''%'') = [2, 1]"
    by (simp add: lookup_defs sample_defs)
  from A[rule_format, OF r] have "map md_issue_id mds =
      map (\<lambda>r. Some (str_int (rw_id r)))
        (concat (map (\<lambda>vid. sql_issues_by_number ?e (nn_is_issue_one default_config) vid ''1'' ''%'') [10]))" .
  also have "\<dots> = map (\<lambda>k. Some (str_int k))
        (map rw_id (sql_issues_by_number ?e (nn_is_issue_one default_config) 10 ''1'' ''%''))"
    by (simp add: comp_def)
  also have "\<dots> = [Some ''2'', Some ''1'']"
    unfolding rows using sample_strings by simp
  finally have "map md_issue_id mds = [Some ''2'', Some ''1'']" .
  with r have "\<exists>mds s'. fetch_issues_by_series_issue_num_and_year sample_ext default_config ?e
        [10] ''1'' None initial_state = (Inr mds, s')
      \<and> map md_issue_id mds = [Some ''2'', Some ''1'']"
    by (intro exI conjI)
  with p show ?thesis by (intro conjI)
qed

text \<open>
  Claim C1 as stated fails: series 10 has two issue rows numbered "1" (ids 1 and 2), the
  query groups by number, and the call returns one record where the union of the rows has
  two.
\<close>

theorem issues_by_number_counterexample:
  "map_sum id (map md_issue_id)
     (fst (fetch_issues_by_series_issue_num_and_year sample_ext default_config
             (sample_env [sample_issue 1 10 ''1'', sample_issue 2 10 ''1''] [])
             [10] ''1'' None initial_state))
     = Inr [Some ''1'']
   \<and> map is_id (rows_as_specified (db (sample_env [sample_issue 1 10 ''1'', sample_issue 2 10 ''1''] []))
                  True [10]) = [1, 2]"
  using sample_strings
  by (simp add: lookup_defs sample_defs rows_as_specified_def)

end
